theory Spec2Isabelle
  imports Main "HOL-Library.List_Lexorder" "HOL-Library.Multiset"
begin

section \<open>Values of the host language\<close>

text \<open>
  The timeline script (\<^verbatim>\<open>src/script.js\<close>) runs in a browser. Its own functions are
  embedded below one by one. Strings are HOL strings over ASCII. A JavaScript number is
  either \<^verbatim>\<open>NaN\<close> or an integer: episode numbers are integers, and fractions and
  infinities stay outside the model.
\<close>

datatype number = NaN | Num int

datatype json =
    JNull
  | JBool bool
  | JNum int
  | JStr string
  | JArr "json list"
  | JObj "(string \<times> json) list"

datatype exn = SyntaxError | QuotaExceededError

text \<open>
  Built-in functions of the browser that the script calls and that are not part of the
  repository are collected in one record, passed to every function that needs them:
  \<^item> \<open>localeCompare\<close>: \<^verbatim>\<open>a.localeCompare(b, undefined, {numeric:true})\<close>;
  \<^item> \<open>JSON_parse\<close>: \<^verbatim>\<open>JSON.parse\<close>, with \<open>None\<close> for a thrown SyntaxError;
  \<^item> \<open>JSON_stringify\<close>: \<^verbatim>\<open>JSON.stringify\<close>;
  \<^item> \<open>ToNumber\<close>: \<^verbatim>\<open>Number(v)\<close> for a string, an array or an object;
  \<^item> \<open>URLSearchParams\<close>: the name-value pairs of a query string, in order.
\<close>

record platform =
  localeCompare :: "string \<Rightarrow> string \<Rightarrow> int"
  JSON_parse :: "string \<Rightarrow> json option"
  JSON_stringify :: "json \<Rightarrow> string"
  ToNumber :: "json \<Rightarrow> number"
  URLSearchParams :: "string \<Rightarrow> (string \<times> string) list"

text \<open>\<^verbatim>\<open>Number(x)\<close> on a parsed JSON value.\<close>

fun Number_js :: "platform \<Rightarrow> json \<Rightarrow> number" where
  "Number_js P (JNum n) = Num n"
| "Number_js P JNull = Num 0"
| "Number_js P (JBool b) = Num (if b then 1 else 0)"
| "Number_js P v = ToNumber P v"

text \<open>
  \<^verbatim>\<open>JSON.stringify\<close> writes a number that is not finite as \<^verbatim>\<open>null\<close>; the text of
  the resulting value is the platform's.
\<close>

fun json_of_number :: "number \<Rightarrow> json" where
  "json_of_number NaN = JNull"
| "json_of_number (Num n) = JNum n"

fun isArray :: "json \<Rightarrow> bool" where
  "isArray (JArr xs) = True"
| "isArray v = False"

fun array_items :: "json \<Rightarrow> json list" where
  "array_items (JArr xs) = xs"
| "array_items v = []"

subsection \<open>Decimal text of integers\<close>

definition digit_char :: "nat \<Rightarrow> char" where
  "digit_char d = ''0123456789'' ! d"

definition is_digit :: "char \<Rightarrow> bool" where
  "is_digit c \<longleftrightarrow> 48 \<le> (of_char c :: nat) \<and> (of_char c :: nat) \<le> 57"

definition digit_val :: "char \<Rightarrow> nat" where
  "digit_val c = of_char c - 48"

text \<open>\<^verbatim>\<open>String(n)\<close> and \<^verbatim>\<open>`${n}`\<close> for an integer \<open>n\<close>.\<close>

fun digits_of :: "nat \<Rightarrow> string" where
  "digits_of n = (if n < 10 then [digit_char n] else digits_of (n div 10) @ [digit_char (n mod 10)])"

declare digits_of.simps [simp del]

definition String_of_int :: "int \<Rightarrow> string" where
  "String_of_int i = (if i < 0 then CHR ''-'' # digits_of (nat (- i)) else digits_of (nat i))"

text \<open>\<^verbatim>\<open>Number(ds)\<close> for a string of decimal digits, as captured by \<^verbatim>\<open>(\d+)\<close>.\<close>

definition nat_of_digits :: "string \<Rightarrow> nat" where
  "nat_of_digits ds = foldl (\<lambda>a c. 10 * a + digit_val c) 0 ds"

subsection \<open>Sets of numbers\<close>

text \<open>
  A JavaScript \<^verbatim>\<open>Set\<close> keeps its members in insertion order, without duplicates
  (\<^verbatim>\<open>NaN\<close> counts as equal to itself). It is a duplicate-free list here.
\<close>

definition Set_add :: "number \<Rightarrow> number list \<Rightarrow> number list" where
  "Set_add x s = (if x \<in> set s then s else s @ [x])"

definition Set_delete :: "number \<Rightarrow> number list \<Rightarrow> number list" where
  "Set_delete x s = filter (\<lambda>y. y \<noteq> x) s"

definition Set_has :: "number \<Rightarrow> number list \<Rightarrow> bool" where
  "Set_has x s \<longleftrightarrow> x \<in> set s"

definition Set_of_array :: "number list \<Rightarrow> number list" where
  "Set_of_array xs = foldl (\<lambda>s x. Set_add x s) [] xs"

section \<open>Collapsed-state store\<close>

text \<open>
  \<^verbatim>\<open>localStorage\<close>: the stored items, and whether the browser refuses further writes
  (\<^verbatim>\<open>setItem\<close> then throws a QuotaExceededError).
\<close>

record storage =
  items :: "string \<Rightarrow> string option"
  quota_exceeded :: bool

definition getItem :: "storage \<Rightarrow> string \<Rightarrow> string option" where
  "getItem st k = items st k"

definition setItem :: "storage \<Rightarrow> string \<Rightarrow> string \<Rightarrow> exn + storage" where
  "setItem st k v =
     (if quota_exceeded st then Inl QuotaExceededError
      else Inr (st\<lparr>items := (items st)(k \<mapsto> v)\<rparr>))"

definition DEFAULT_RUN_ID :: string where
  "DEFAULT_RUN_ID = ''run-02''"

definition COLLAPSED_KEY_PREFIX :: string where
  "COLLAPSED_KEY_PREFIX = ''nuz_timeline_collapsed:''"

text \<open>The body of the \<^verbatim>\<open>try\<close> block of \<^verbatim>\<open>loadCollapsedMap\<close>.\<close>

definition loadCollapsedMap_body :: "platform \<Rightarrow> string \<Rightarrow> storage \<Rightarrow> exn + number list" where
  "loadCollapsedMap_body P runId st =
     (case getItem st (COLLAPSED_KEY_PREFIX @ runId) of
        None \<Rightarrow> Inr []
      | Some raw \<Rightarrow>
          if raw = [] then Inr []
          else (case JSON_parse P raw of
                  None \<Rightarrow> Inl SyntaxError
                | Some arr \<Rightarrow>
                    if \<not> isArray arr then Inr []
                    else Inr (Set_of_array (map (Number_js P) (array_items arr)))))"

text \<open>\<^verbatim>\<open>loadCollapsedMap\<close>: the \<^verbatim>\<open>catch\<close> logs and returns an empty set.\<close>

definition loadCollapsedMap :: "platform \<Rightarrow> string \<Rightarrow> storage \<Rightarrow> number list" where
  "loadCollapsedMap P runId st =
     (case loadCollapsedMap_body P runId st of Inl e \<Rightarrow> [] | Inr s \<Rightarrow> s)"

text \<open>
  \<^verbatim>\<open>saveCollapsedMap\<close>: \<^verbatim>\<open>Array.from(set.values())\<close> is the list itself; a failed
  write is logged and leaves the store as it was.
\<close>

definition saveCollapsedMap_body :: "platform \<Rightarrow> string \<Rightarrow> number list \<Rightarrow> storage \<Rightarrow> exn + storage" where
  "saveCollapsedMap_body P runId s st =
     setItem st (COLLAPSED_KEY_PREFIX @ runId) (JSON_stringify P (JArr (map json_of_number s)))"

definition saveCollapsedMap :: "platform \<Rightarrow> string \<Rightarrow> number list \<Rightarrow> storage \<Rightarrow> storage" where
  "saveCollapsedMap P runId s st =
     (case saveCollapsedMap_body P runId s st of Inl e \<Rightarrow> st | Inr st' \<Rightarrow> st')"

definition clearCollapsedMap :: "string \<Rightarrow> storage \<Rightarrow> storage" where
  "clearCollapsedMap runId st = st\<lparr>items := (items st)((COLLAPSED_KEY_PREFIX @ runId) := None)\<rparr>"

section \<open>Image names\<close>

definition SPRITES_PATH :: string where
  "SPRITES_PATH = ''sprites/''"

definition BADGES_PATH :: string where
  "BADGES_PATH = SPRITES_PATH @ ''badges/''"

definition toLowerCase_char :: "char \<Rightarrow> char" where
  "toLowerCase_char c =
     (case map_of (zip ''ABCDEFGHIJKLMNOPQRSTUVWXYZ'' ''abcdefghijklmnopqrstuvwxyz'') c of
        None \<Rightarrow> c | Some l \<Rightarrow> l)"

definition toUpperCase_char :: "char \<Rightarrow> char" where
  "toUpperCase_char c =
     (case map_of (zip ''abcdefghijklmnopqrstuvwxyz'' ''ABCDEFGHIJKLMNOPQRSTUVWXYZ'') c of
        None \<Rightarrow> c | Some u \<Rightarrow> u)"

definition toLowerCase :: "string \<Rightarrow> string" where
  "toLowerCase s = map toLowerCase_char s"

text \<open>The characters matched by \<^verbatim>\<open>\s\<close>: tab, line feed, vertical tab, form feed,
  carriage return and space.\<close>

definition is_space :: "char \<Rightarrow> bool" where
  "is_space c \<longleftrightarrow> c \<in> set [CHR 0x09, CHR 0x0A, CHR 0x0B, CHR 0x0C, CHR 0x0D, CHR '' '']"

definition trim :: "string \<Rightarrow> string" where
  "trim s = rev (dropWhile is_space (rev (dropWhile is_space s)))"

text \<open>\<^verbatim>\<open>.replace(/['\<dots>]/g, "")\<close>: the apostrophe; its typographic form is not an
  ASCII character.\<close>

definition strip_apostrophes :: "string \<Rightarrow> string" where
  "strip_apostrophes s = filter (\<lambda>c. c \<noteq> CHR 0x27) s"

text \<open>\<^verbatim>\<open>.replace(/\s+/g, "-")\<close>: every maximal run of whitespace becomes one hyphen.\<close>

function whitespace_to_hyphen :: "string \<Rightarrow> string" where
  "whitespace_to_hyphen [] = []"
| "whitespace_to_hyphen (c # cs) =
     (if is_space c then CHR ''-'' # whitespace_to_hyphen (dropWhile is_space cs)
      else c # whitespace_to_hyphen cs)"
  by pat_completeness auto
termination
  by (relation "measure length") (auto simp: length_dropWhile_le le_imp_less_Suc)

text \<open>The characters kept by \<^verbatim>\<open>.replace(/[^a-z0-9\-]/g, "")\<close>.\<close>

definition filename_char :: "char \<Rightarrow> bool" where
  "filename_char c \<longleftrightarrow> c \<in> set ''abcdefghijklmnopqrstuvwxyz0123456789-''"

definition speciesToFilename :: "string option \<Rightarrow> string option" where
  "speciesToFilename name =
     (case name of
        None \<Rightarrow> None
      | Some n \<Rightarrow>
          if n = [] then None
          else Some (filter filename_char
                       (whitespace_to_hyphen (strip_apostrophes (trim (toLowerCase n))))))"

definition spriteUrlFor :: "string option \<Rightarrow> string option" where
  "spriteUrlFor species =
     (case speciesToFilename species of
        None \<Rightarrow> None
      | Some filename \<Rightarrow> if filename = [] then None else Some (SPRITES_PATH @ filename @ ''.png''))"

definition badgeUrlFor :: "string option \<Rightarrow> string option" where
  "badgeUrlFor name =
     (case speciesToFilename name of
        None \<Rightarrow> None
      | Some filename \<Rightarrow> if filename = [] then None else Some (BADGES_PATH @ filename @ ''.png''))"

definition capitalize :: "string option \<Rightarrow> string" where
  "capitalize s = (case s of None \<Rightarrow> [] | Some [] \<Rightarrow> [] | Some (c # cs) \<Rightarrow> toUpperCase_char c # cs)"

section \<open>Truthiness and query parameters\<close>

text \<open>A value that may be \<^verbatim>\<open>null\<close> or \<^verbatim>\<open>undefined\<close> is an option; the empty string
  is falsy as well.\<close>

definition truthy :: "string option \<Rightarrow> bool" where
  "truthy v \<longleftrightarrow> v \<noteq> None \<and> v \<noteq> Some []"

definition js_or :: "string option \<Rightarrow> string option \<Rightarrow> string option" where
  "js_or a b = (if truthy a then a else b)"

definition js_and :: "string option \<Rightarrow> string option \<Rightarrow> string option" where
  "js_and a b = (if truthy a then b else a)"

definition or_empty :: "string option \<Rightarrow> string" where
  "or_empty v = (case v of None \<Rightarrow> [] | Some s \<Rightarrow> s)"

text \<open>\<^verbatim>\<open>params.get(k)\<close> and \<^verbatim>\<open>params.set(k, v)\<close> of a \<^verbatim>\<open>URLSearchParams\<close> object,
  kept as its list of pairs.\<close>

definition params_get :: "string \<Rightarrow> (string \<times> string) list \<Rightarrow> string option" where
  "params_get k ps = map_of ps k"

fun params_set :: "string \<Rightarrow> string \<Rightarrow> (string \<times> string) list \<Rightarrow> (string \<times> string) list" where
  "params_set k v [] = [(k, v)]"
| "params_set k v ((n, w) # ps) =
     (if n = k then (k, v) # filter (\<lambda>p. fst p \<noteq> k) ps else (n, w) # params_set k v ps)"

section \<open>Choosing the first run\<close>

record run =
  run_id :: string
  run_title :: "string option"

text \<open>
  The expression of \<^verbatim>\<open>init\<close>:
  \<^verbatim>\<open>(runParam && runs.find(r => r.id === runParam)?.id) || DEFAULT_RUN_ID || runs[0]?.id || DEFAULT_RUN_ID\<close>,
  with the configured default as an argument.
\<close>

definition initial_run_for :: "string \<Rightarrow> string option \<Rightarrow> run list \<Rightarrow> string option" where
  "initial_run_for default_id runParam runs =
     js_or (js_or (js_or (js_and runParam
                            (map_option run_id (find (\<lambda>r. Some (run_id r) = runParam) runs)))
                         (Some default_id))
                  (case runs of [] \<Rightarrow> None | r # rs \<Rightarrow> Some (run_id r)))
           (Some default_id)"

definition initial_run :: "platform \<Rightarrow> string \<Rightarrow> run list \<Rightarrow> string option" where
  "initial_run P search runs =
     initial_run_for DEFAULT_RUN_ID (params_get ''run'' (URLSearchParams P search)) runs"

section \<open>Event records\<close>

text \<open>
  An event of \<^verbatim>\<open>events.json\<close>. A field that may be missing is an option; a flag tested
  with \<^verbatim>\<open>=== true\<close> is a boolean, false when missing. The nested \<^verbatim>\<open>pokemon\<close> object
  is a record of its own.
\<close>

record pokemon =
  pk_species :: "string option"
  pk_nickname :: "string option"
  pk_level :: "int option"
  pk_gender :: "string option"
  pk_failed :: bool
  pk_illegal :: bool
  pk_from :: "string option"
  pk_to :: "string option"
  pk_before :: "string option"
  pk_after :: "string option"

datatype special = SpecialBool bool | SpecialString string | SpecialObject "string option"

record event =
  ev_id :: "string option"
  ev_episode :: "int option"
  ev_type :: "string option"
  ev_timestamp :: "string option"
  ev_date :: "string option"
  ev_notes :: "string option"
  ev_side :: "string option"
  ev_level :: "int option"
  ev_species :: "string option"
  ev_from :: "string option"
  ev_to :: "string option"
  ev_badge :: "string option"
  ev_badgeName :: "string option"
  ev_name :: "string option"
  ev_failed :: bool
  ev_flags_failed :: bool
  ev_failedEncounter :: bool
  ev_illegal :: bool
  ev_flags_illegal :: bool
  ev_illegalEncounter :: bool
  ev_special :: "special option"
  ev_pokemon :: "pokemon option"

text \<open>\<^verbatim>\<open>ev.episode ?? 0\<close>, \<^verbatim>\<open>ev.timestamp || ""\<close> and \<^verbatim>\<open>(ev.type || "").toLowerCase()\<close>.\<close>

definition episode_of :: "event \<Rightarrow> int" where
  "episode_of ev = (case ev_episode ev of None \<Rightarrow> 0 | Some n \<Rightarrow> n)"

definition timestamp_of :: "event \<Rightarrow> string" where
  "timestamp_of ev = or_empty (ev_timestamp ev)"

definition type_of :: "event \<Rightarrow> string" where
  "type_of ev = toLowerCase (or_empty (ev_type ev))"

text \<open>\<^verbatim>\<open>ev.pokemon?.f\<close> for a field \<open>f\<close> of the nested object.\<close>

definition pokemon_field :: "(pokemon \<Rightarrow> 'a option) \<Rightarrow> event \<Rightarrow> 'a option" where
  "pokemon_field f ev = (case ev_pokemon ev of None \<Rightarrow> None | Some p \<Rightarrow> f p)"

definition pokemon_flag :: "(pokemon \<Rightarrow> bool) \<Rightarrow> event \<Rightarrow> bool" where
  "pokemon_flag f ev = (case ev_pokemon ev of None \<Rightarrow> False | Some p \<Rightarrow> f p)"

section \<open>The element of one event\<close>

text \<open>
  What \<^verbatim>\<open>createEventElement\<close> builds, as far as it is followed here: the classes of the
  \<^verbatim>\<open>article\<close>, its \<^verbatim>\<open>data-id\<close>, the header text with its ribbon, and the images of
  the visual column with their source (a file, or the inline placeholder when no file
  name can be derived). The text column is not followed.
\<close>

datatype image_source = FromUrl string | SvgPlaceholder string

record image =
  img_class :: string
  img_alt :: string
  img_src :: image_source

record event_element =
  el_classes :: "string list"
  el_data_id :: "string option"
  el_header :: string
  el_ribbon :: "string option"
  el_images :: "image list"
  el_aria_label :: "string option"

definition em_dash :: string where
  "em_dash = [CHR 0xE2, CHR 0x80, CHR 0x94]"

definition bullet :: string where
  "bullet = [CHR 0xE2, CHR 0x80, CHR 0xA2]"

text \<open>\<^verbatim>\<open>setSvgPlaceholder\<close> shows the first three characters of the label, upper-cased.\<close>

definition placeholder_label :: "string \<Rightarrow> string" where
  "placeholder_label label = map toUpperCase_char (take 3 label)"

definition make_image :: "string \<Rightarrow> string \<Rightarrow> string \<Rightarrow> string option \<Rightarrow> image" where
  "make_image cls alt label url =
     \<lparr>img_class = cls, img_alt = alt,
      img_src = (case url of None \<Rightarrow> SvgPlaceholder (placeholder_label label) | Some u \<Rightarrow> FromUrl u)\<rparr>"

definition isFailed :: "event \<Rightarrow> bool" where
  "isFailed ev \<longleftrightarrow>
     ev_failed ev \<or> ev_flags_failed ev \<or> type_of ev = ''failed'' \<or> ev_failedEncounter ev \<or>
     pokemon_flag pk_failed ev"

definition isIllegal :: "event \<Rightarrow> bool" where
  "isIllegal ev \<longleftrightarrow>
     ev_illegal ev \<or> ev_flags_illegal ev \<or> type_of ev = ''illegal'' \<or> ev_illegalEncounter ev \<or>
     pokemon_flag pk_illegal ev"

text \<open>\<^verbatim>\<open>ev.special\<close> as a condition: \<^verbatim>\<open>false\<close> and the empty string are falsy.\<close>

definition special_truthy :: "event \<Rightarrow> bool" where
  "special_truthy ev \<longleftrightarrow>
     (case ev_special ev of
        None \<Rightarrow> False
      | Some (SpecialBool b) \<Rightarrow> b
      | Some (SpecialString s) \<Rightarrow> s \<noteq> []
      | Some (SpecialObject l) \<Rightarrow> True)"

definition level_of :: "event \<Rightarrow> int option" where
  "level_of ev = (case pokemon_field pk_level ev of None \<Rightarrow> ev_level ev | Some l \<Rightarrow> Some l)"

definition with_level :: "int option \<Rightarrow> (string \<Rightarrow> string) \<Rightarrow> string \<Rightarrow> string" where
  "with_level level f plain =
     (case level of None \<Rightarrow> plain | Some l \<Rightarrow> if l = 0 then plain else f (String_of_int l))"

definition header_text :: "event \<Rightarrow> string" where
  "header_text ev =
     (let t = type_of ev; level = level_of ev in
      if t = ''caught'' then
        (if isFailed ev then with_level level (\<lambda>l. ''Failed to catch (Level '' @ l @ '')'') ''Failed to catch''
         else with_level level (\<lambda>l. ''Caught at Level '' @ l) ''Caught'')
      else if t = ''fainted'' then ''Fainted''
      else if t = ''evolved'' \<or> t = ''evolution'' then
        with_level level (\<lambda>l. ''Evolved at Level '' @ l) ''Evolved''
      else if t = ''badge'' then ''Badge earned''
      else if truthy (ev_type ev) then capitalize (ev_type ev) else ''Event'')"

definition visual_images :: "event \<Rightarrow> image list" where
  "visual_images ev =
     (let t = type_of ev in
      if t = ''evolved'' \<or> t = ''evolution'' then
        (let fromName = or_empty (js_or (js_or (js_or (ev_from ev) (pokemon_field pk_from ev))
                                   (pokemon_field pk_before ev)) (pokemon_field pk_species ev));
             toName = or_empty (js_or (js_or (js_or (ev_to ev) (pokemon_field pk_to ev))
                                 (pokemon_field pk_after ev)) (pokemon_field pk_species ev))
         in [make_image ''sprite'' (if fromName = [] then ''before'' else fromName) fromName
               (spriteUrlFor (Some fromName)),
             make_image ''sprite'' (if toName = [] then ''after'' else toName) toName
               (spriteUrlFor (Some toName))])
      else if t = ''badge'' then
        (let badgeName = or_empty (js_or (js_or (js_or (js_or (ev_badge ev) (ev_badgeName ev))
                                    (ev_name ev)) (ev_notes ev)) (Some ''badge''))
         in [make_image ''badge-icon'' badgeName badgeName (badgeUrlFor (Some badgeName))])
      else
        (let speciesName = or_empty (js_or (pokemon_field pk_species ev) (ev_species ev))
         in [make_image ''sprite'' (if speciesName = [] then ''pokemon'' else speciesName)
               speciesName (spriteUrlFor (Some speciesName))]))"

definition createEventElement :: "event \<Rightarrow> event_element" where
  "createEventElement ev =
     (let t = type_of ev in
      \<lparr>el_classes =
         [''event'', (if ev_side ev = Some ''right'' then ''right'' else ''left'')]
         @ (if t \<noteq> [] then [''type-'' @ t] else [])
         @ (if t = ''fainted'' then [''fainted''] else [])
         @ (if isFailed ev then [''failed''] else if isIllegal ev then [''illegal''] else []),
       el_data_id = (if truthy (ev_id ev) then ev_id ev else None),
       el_header = header_text ev,
       el_ribbon =
         (if isFailed ev \<and> \<not> special_truthy ev then Some ''Failed Encounter''
          else if isIllegal ev \<and> \<not> special_truthy ev then Some ''Illegal Encounter''
          else None),
       el_images = visual_images ev,
       el_aria_label = None\<rparr>)"

text \<open>\<^verbatim>\<open>markSpecialEvent(ev, el, {highlightName: "Luc"})\<close>.\<close>

definition special_default :: "event \<Rightarrow> string" where
  "special_default ev = or_empty (js_or (pokemon_field pk_nickname ev) (Some ''Named after Luc''))"

definition markSpecialEvent :: "event \<Rightarrow> event_element \<Rightarrow> event_element" where
  "markSpecialEvent ev el =
     (let labelled = (\<lambda>l. let specialLabel = (if l = [] then special_default ev else l) in
            el\<lparr>el_classes := (if ''special'' \<in> set (el_classes el) then el_classes el
                               else el_classes el @ [''special'']),
               el_ribbon := Some specialLabel,
               el_aria_label := Some (specialLabel @ '' '' @ em_dash @ '' special event'')\<rparr>)
      in case ev_special ev of
           Some (SpecialString s) \<Rightarrow> labelled s
         | Some (SpecialObject l) \<Rightarrow> labelled (or_empty l)
         | Some (SpecialBool b) \<Rightarrow> if b then labelled (special_default ev) else el
         | None \<Rightarrow> el)"

section \<open>The page\<close>

text \<open>
  The children of an episode's contents container are run-end banners
  (\<^verbatim>\<open>div.run-end-banner\<close>, with their text) and event articles.
\<close>

datatype content_node = RunEndBanner string | EventArticle event_element

text \<open>
  One \<^verbatim>\<open>section.episode-section\<close>: its \<^verbatim>\<open>data-episode\<close> (the decimal text of an
  integer, kept as the integer), the banner's \<^verbatim>\<open>aria-expanded\<close> and title, and the
  contents container's \<^verbatim>\<open>collapsed\<close> class, \<^verbatim>\<open>aria-hidden\<close>, hidden overflow,
  inline \<^verbatim>\<open>max-height\<close> and children. The inline \<^verbatim>\<open>max-height\<close> is not set, is
  \<^verbatim>\<open>0px\<close>, or is the measured height of the contents (\<^verbatim>\<open>2000px\<close> when the measure is
  zero); the measured number depends on layout and is not kept. The measurement that
  \<^verbatim>\<open>renderTimeline\<close> asks for at the next animation frame, for the sections it built
  expanded, runs after the script has returned and is not followed.
\<close>

datatype max_height = NotSet | ZeroPx | MeasuredPx

record episode_section =
  data_episode :: int
  banner_expanded :: bool
  banner_title :: string
  contents_collapsed :: bool
  contents_aria_hidden :: bool
  contents_overflow_hidden :: bool
  contents_max_height :: max_height
  contents_children :: "content_node list"

text \<open>
  The state the script works on: the children of \<^verbatim>\<open>#timeline\<close> (\<open>None\<close> when the page
  has no such element), the text shown in \<^verbatim>\<open>#message\<close> (\<open>None\<close> when hidden), the
  episodes offered by the quick-jump selector, \<^verbatim>\<open>localStorage\<close>, the global
  \<^verbatim>\<open>CURRENT_RUN_ID\<close>, and the query and hash of the page's URL.
\<close>

record page =
  timeline :: "episode_section list option"
  message_text :: "string option"
  episode_selector :: "(int \<times> string) list"
  local_storage :: storage
  CURRENT_RUN_ID :: "string option"
  location_search :: string
  location_hash :: string

definition sections_of :: "page \<Rightarrow> episode_section list" where
  "sections_of pg = (case timeline pg of None \<Rightarrow> [] | Some ss \<Rightarrow> ss)"

text \<open>\<^verbatim>\<open>CURRENT_RUN_ID || DEFAULT_RUN_ID\<close>.\<close>

definition run_key :: "page \<Rightarrow> string" where
  "run_key pg = or_empty (js_or (CURRENT_RUN_ID pg) (Some DEFAULT_RUN_ID))"

section \<open>Expanding and collapsing\<close>

text \<open>\<^verbatim>\<open>document.querySelector\<close> returns the first match in document order; the
  attribute changes apply to that section only.\<close>

fun update_first :: "('a \<Rightarrow> bool) \<Rightarrow> ('a \<Rightarrow> 'a) \<Rightarrow> 'a list \<Rightarrow> 'a list" where
  "update_first p f [] = []"
| "update_first p f (x # xs) = (if p x then f x # xs else x # update_first p f xs)"

definition set_expanded :: "bool \<Rightarrow> episode_section \<Rightarrow> episode_section" where
  "set_expanded willExpand sec =
     sec\<lparr>banner_expanded := willExpand,
         contents_collapsed := \<not> willExpand,
         contents_aria_hidden := \<not> willExpand,
         contents_overflow_hidden := \<not> willExpand,
         contents_max_height := (if willExpand then MeasuredPx else ZeroPx)\<rparr>"

text \<open>
  \<^verbatim>\<open>toggleEpisodeSection(runId, episode, expand)\<close>. The selector
  \<^verbatim>\<open>.episode-section[data-episode="${episode}"]\<close> matches no section when the episode is
  \<^verbatim>\<open>NaN\<close>. Every section built by \<^verbatim>\<open>renderTimeline\<close> has its banner and its contents,
  so the second early return is never taken. \<open>expand\<close> is \<open>None\<close> when the argument is
  not a boolean; \<open>will_expand\<close> is
  \<^verbatim>\<open>(typeof expand === "boolean") ? expand : !isExpanded\<close>.
\<close>

definition will_expand :: "bool option \<Rightarrow> episode_section \<Rightarrow> bool" where
  "will_expand expand section =
     (let isExpanded = banner_expanded section
      in case expand of Some b \<Rightarrow> b | None \<Rightarrow> \<not> isExpanded)"

definition toggleEpisodeSection :: "platform \<Rightarrow> string \<Rightarrow> number \<Rightarrow> bool option \<Rightarrow> page \<Rightarrow> page" where
  "toggleEpisodeSection P runId episode expand pg =
     (case episode of
        NaN \<Rightarrow> pg
      | Num n \<Rightarrow>
          (case find (\<lambda>sec. data_episode sec = n) (sections_of pg) of
             None \<Rightarrow> pg
           | Some section \<Rightarrow>
               let willExpand = will_expand expand section;
                   sections = update_first (\<lambda>sec. data_episode sec = n) (set_expanded willExpand)
                                (sections_of pg);
                   collapsed = loadCollapsedMap P runId (local_storage pg);
                   collapsed' = (if \<not> willExpand then Set_add (Num n) collapsed
                                 else Set_delete (Num n) collapsed)
               in pg\<lparr>timeline := Some sections,
                     local_storage := saveCollapsedMap P runId collapsed' (local_storage pg)\<rparr>))"

text \<open>
  \<^verbatim>\<open>setAllCollapsed(runId, collapsed)\<close>: the set is loaded once, every section is
  toggled (which loads and saves on its own), and the set loaded first, updated along
  the way, is saved at the end.
\<close>

definition setAllCollapsed_step ::
  "platform \<Rightarrow> string \<Rightarrow> bool \<Rightarrow> page \<times> number list \<Rightarrow> episode_section \<Rightarrow> page \<times> number list" where
  "setAllCollapsed_step P runId collapsed acc sec =
     (let ep = Num (data_episode sec) in
      (toggleEpisodeSection P runId ep (Some (\<not> collapsed)) (fst acc),
       (if collapsed then Set_add ep (snd acc) else Set_delete ep (snd acc))))"

definition setAllCollapsed :: "platform \<Rightarrow> string \<Rightarrow> bool \<Rightarrow> page \<Rightarrow> page" where
  "setAllCollapsed P runId collapsed pg =
     (let sections = sections_of pg;
          collapsed_map = loadCollapsedMap P runId (local_storage pg);
          (pg', collapsed_map') = foldl (setAllCollapsed_step P runId collapsed) (pg, collapsed_map) sections
      in pg'\<lparr>local_storage := saveCollapsedMap P runId collapsed_map' (local_storage pg')\<rparr>)"

section \<open>Permalinks\<close>

text \<open>\<^verbatim>\<open>parseHashAnchorAndParams\<close>: the anchor is \<open>None\<close> for \<^verbatim>\<open>null\<close>.\<close>

definition parseHashAnchorAndParams :: "platform \<Rightarrow> page \<Rightarrow> string option \<times> (string \<times> string) list" where
  "parseHashAnchorAndParams P pg =
     (let params = URLSearchParams P (location_search pg);
          rawHash = (case location_hash pg of [] \<Rightarrow> [] | c # cs \<Rightarrow> if c = CHR ''#'' then cs else c # cs)
      in if rawHash = [] then (None, params)
         else if CHR ''?'' \<notin> set rawHash then (Some rawHash, params)
         else
           (let anchor = takeWhile (\<lambda>c. c \<noteq> CHR ''?'') rawHash;
                hashQuery = drop 1 (dropWhile (\<lambda>c. c \<noteq> CHR ''?'') rawHash);
                hashParams = URLSearchParams P hashQuery
            in (Some anchor, foldl (\<lambda>ps kv. params_set (fst kv) (snd kv) ps) params hashParams)))"

text \<open>The capture of \<^verbatim>\<open>/^episode-(\d+)$/\<close>, when the anchor matches.\<close>

definition episode_anchor_digits :: "string \<Rightarrow> string option" where
  "episode_anchor_digits anchor =
     (let ds = drop 8 anchor in
      if take 8 anchor = ''episode-'' \<and> ds \<noteq> [] \<and> list_all is_digit ds then Some ds else None)"

text \<open>
  \<^verbatim>\<open>handlePermalinkOnLoad\<close>. The scroll that follows the toggle runs later, from a timer,
  and is not followed.
\<close>

definition handlePermalinkOnLoad :: "platform \<Rightarrow> page \<Rightarrow> page" where
  "handlePermalinkOnLoad P pg =
     (let (anchor, params) = parseHashAnchorAndParams P pg;
          expandAndScroll = (\<lambda>episodeNum shouldExpand.
             toggleEpisodeSection P (run_key pg) episodeNum (Some shouldExpand) pg);
          fallback =
            (let q = URLSearchParams P (location_search pg);
                 epi = params_get ''episode'' q;
                 spoilerQ = params_get ''spoiler'' q
             in if truthy epi then
                  (case Number_js P (JStr (or_empty epi)) of
                     NaN \<Rightarrow> pg
                   | Num n \<Rightarrow> expandAndScroll (Num n) (spoilerQ \<noteq> Some ''0''))
                else pg)
      in if truthy anchor \<and> take 8 (or_empty anchor) = ''episode-'' then
           (case episode_anchor_digits (or_empty anchor) of
              Some ds \<Rightarrow>
                expandAndScroll (Num (int (nat_of_digits ds))) (params_get ''spoiler'' params \<noteq> Some ''0'')
            | None \<Rightarrow> fallback)
         else fallback)"

section \<open>Rendering the timeline\<close>

text \<open>
  The comparison function given to \<^verbatim>\<open>events.sort\<close>.
\<close>

definition compare_events :: "platform \<Rightarrow> event \<Rightarrow> event \<Rightarrow> int" where
  "compare_events P a b =
     (let ea = episode_of a; eb = episode_of b in
      if ea \<noteq> eb then ea - eb
      else localeCompare P (timestamp_of a) (timestamp_of b))"

text \<open>
  \<^verbatim>\<open>Array.prototype.sort\<close> is stable and, for a consistent comparison function, returns
  the elements in ascending order. It is the stable insertion sort here.
\<close>

fun insort_by :: "('a \<Rightarrow> 'a \<Rightarrow> int) \<Rightarrow> 'a \<Rightarrow> 'a list \<Rightarrow> 'a list" where
  "insort_by cmp x [] = [x]"
| "insort_by cmp x (y # ys) = (if cmp x y \<le> 0 then x # y # ys else y # insort_by cmp x ys)"

fun Array_sort :: "('a \<Rightarrow> 'a \<Rightarrow> int) \<Rightarrow> 'a list \<Rightarrow> 'a list" where
  "Array_sort cmp [] = []"
| "Array_sort cmp (x # xs) = insort_by cmp x (Array_sort cmp xs)"

text \<open>
  The grouping loop: \<^verbatim>\<open>episodesOrder\<close> and \<^verbatim>\<open>episodesMap\<close> together are the list of
  episodes in first-seen order, each with its events in the order they were pushed.
\<close>

fun push_event :: "event \<Rightarrow> (int \<times> event list) list \<Rightarrow> (int \<times> event list) list" where
  "push_event ev [] = [(episode_of ev, [ev])]"
| "push_event ev ((ep, evs) # rest) =
     (if ep = episode_of ev then (ep, evs @ [ev]) # rest else (ep, evs) # push_event ev rest)"

definition group_by_episode :: "event list \<Rightarrow> (int \<times> event list) list" where
  "group_by_episode events = foldl (\<lambda>groups ev. push_event ev groups) [] events"

text \<open>The events sorted and grouped, as \<^verbatim>\<open>renderTimeline\<close> holds them after its first loop.\<close>

definition episode_groups :: "platform \<Rightarrow> event list \<Rightarrow> (int \<times> event list) list" where
  "episode_groups P events = group_by_episode (Array_sort (compare_events P) events)"

definition is_run_end :: "event \<Rightarrow> bool" where
  "is_run_end ev \<longleftrightarrow> type_of ev \<in> set [''run_end'', ''runended'', ''run_ended'', ''end'']"

text \<open>\<^verbatim>\<open>parts.join(" \<bullet> ")\<close>.\<close>

fun join_parts :: "string list \<Rightarrow> string" where
  "join_parts [] = []"
| "join_parts [p] = p"
| "join_parts (p # q # ps) = p @ '' '' @ bullet @ '' '' @ join_parts (q # ps)"

definition run_end_text :: "event \<Rightarrow> string" where
  "run_end_text ev =
     (let parts = (case ev_episode ev of None \<Rightarrow> [] | Some n \<Rightarrow> [''Episode '' @ String_of_int n])
                  @ (if truthy (ev_date ev) then [or_empty (ev_date ev)] else []);
          note = (if truthy (ev_notes ev) then '' '' @ em_dash @ '' '' @ or_empty (ev_notes ev) else [])
      in ''Run Ended'' @ (if parts \<noteq> [] then '' '' @ em_dash @ '' '' @ join_parts parts else []) @ note)"

definition render_event :: "event \<Rightarrow> content_node" where
  "render_event ev =
     (if is_run_end ev then RunEndBanner (run_end_text ev)
      else EventArticle (markSpecialEvent ev (createEventElement ev)))"

definition episode_date :: "event list \<Rightarrow> string option" where
  "episode_date evs = (case evs of [] \<Rightarrow> None | ev # rest \<Rightarrow> ev_date ev)"

definition build_section :: "number list \<Rightarrow> int \<times> event list \<Rightarrow> episode_section" where
  "build_section persisted g =
     (let ep = fst g; epEvents = snd g;
          isExpanded = \<not> Set_has (Num ep) persisted;
          epDate = episode_date epEvents
      in \<lparr>data_episode = ep,
          banner_expanded = isExpanded,
          banner_title = ''Episode '' @ String_of_int ep
             @ (if truthy epDate then '' '' @ bullet @ '' '' @ or_empty epDate else []),
          contents_collapsed = \<not> isExpanded,
          contents_aria_hidden = \<not> isExpanded,
          contents_overflow_hidden = \<not> isExpanded,
          contents_max_height = (if isExpanded then NotSet else ZeroPx),
          contents_children = map render_event epEvents\<rparr>)"

text \<open>
  The default of \<^verbatim>\<open>renderTimeline\<close> for a run never seen before: the set that is used
  for the sections, and the store after the step.
\<close>

definition resolve_collapsed :: "platform \<Rightarrow> string \<Rightarrow> int list \<Rightarrow> storage \<Rightarrow> number list \<times> storage" where
  "resolve_collapsed P runKey episodesOrder st =
     (let persisted = loadCollapsedMap P runKey st;
          hasPersisted = (getItem st (COLLAPSED_KEY_PREFIX @ runKey) \<noteq> None)
      in if \<not> hasPersisted \<and> length episodesOrder > 0 then
           (let lastEp = last episodesOrder;
                persisted' = Set_add (Num lastEp) persisted
            in (persisted', saveCollapsedMap P runKey persisted' st))
         else (persisted, st))"

text \<open>
  \<^verbatim>\<open>renderTimeline\<close> up to and including \<^verbatim>\<open>populateEpisodeSelector\<close>, for a page that
  has its \<^verbatim>\<open>#timeline\<close> and a list of events that is not empty.
\<close>

definition render_sections :: "platform \<Rightarrow> event list \<Rightarrow> page \<Rightarrow> page" where
  "render_sections P events pg =
     (let groups = episode_groups P events;
          runKey = run_key pg;
          (persisted, st) = resolve_collapsed P runKey (map fst groups) (local_storage pg)
      in pg\<lparr>timeline := Some (map (build_section persisted) groups),
            message_text := None,
            episode_selector := map (\<lambda>g. (fst g, or_empty (js_or (episode_date (snd g)) (Some [])))) groups,
            local_storage := st\<rparr>)"

text \<open>
  \<^verbatim>\<open>renderTimeline(events)\<close>. \<^verbatim>\<open>ensureExpandCollapseControls\<close> only wires the two
  buttons to \<^verbatim>\<open>setAllCollapsed\<close> and changes nothing that is followed here.
\<close>

definition renderTimeline :: "platform \<Rightarrow> event list \<Rightarrow> page \<Rightarrow> page" where
  "renderTimeline P events pg =
     (case timeline pg of
        None \<Rightarrow> pg
      | Some old \<Rightarrow>
          if events = [] then
            pg\<lparr>timeline := Some [],
               message_text := Some ''No events found for this run.'',
               episode_selector := []\<rparr>
          else handlePermalinkOnLoad P (render_sections P events pg))"

section \<open>Reading the page\<close>


section \<open>What is asked of the browser\<close>

text \<open>
  The comparison of timestamps orders any two strings and is transitive, as a collation
  order is.
\<close>

definition consistent_compare :: "platform \<Rightarrow> bool" where
  "consistent_compare P \<longleftrightarrow>
     (\<forall>a b. 0 < localeCompare P a b \<longrightarrow> localeCompare P b a \<le> 0) \<and>
     (\<forall>a b c. localeCompare P a b \<le> 0 \<and> localeCompare P b c \<le> 0 \<longrightarrow> localeCompare P a c \<le> 0)"

text \<open>
  \<^verbatim>\<open>JSON.parse\<close> reads back what \<^verbatim>\<open>JSON.stringify\<close> writes for an array of integers,
  and that text is never empty.
\<close>

definition json_roundtrip :: "platform \<Rightarrow> bool" where
  "json_roundtrip P \<longleftrightarrow>
     (\<forall>ns. JSON_stringify P (JArr (map JNum ns)) \<noteq> [] \<and>
           JSON_parse P (JSON_stringify P (JArr (map JNum ns))) = Some (JArr (map JNum ns)))"

section \<open>A reference browser\<close>

text \<open>
  A small implementation of the built-in functions, used to evaluate the script on
  concrete pages: JSON text for arrays of integers, booleans and \<^verbatim>\<open>null\<close>; a comparison
  that reads runs of digits as numbers; query strings without escapes.
\<close>

fun join_commas :: "string list \<Rightarrow> string" where
  "join_commas [] = []"
| "join_commas [t] = t"
| "join_commas (t # u # us) = t @ CHR '','' # join_commas (u # us)"

fun split_on :: "char \<Rightarrow> string \<Rightarrow> string list" where
  "split_on c [] = [[]]"
| "split_on c (x # xs) =
     (if x = c then [] # split_on c xs
      else (case split_on c xs of [] \<Rightarrow> [[x]] | t # ts \<Rightarrow> (x # t) # ts))"

fun ref_scalar :: "json \<Rightarrow> string" where
  "ref_scalar (JNum n) = String_of_int n"
| "ref_scalar (JBool b) = (if b then ''true'' else ''false'')"
| "ref_scalar v = ''null''"

fun ref_stringify :: "json \<Rightarrow> string" where
  "ref_stringify (JArr xs) = CHR ''['' # join_commas (map ref_scalar xs) @ '']''"
| "ref_stringify v = ref_scalar v"

definition ref_token :: "string \<Rightarrow> json option" where
  "ref_token t =
     (if t = ''null'' then Some JNull
      else if t = ''true'' then Some (JBool True)
      else if t = ''false'' then Some (JBool False)
      else (case t of
              [] \<Rightarrow> None
            | c # ds \<Rightarrow>
                if c = CHR ''-'' then
                  (if ds \<noteq> [] \<and> list_all is_digit ds then Some (JNum (- int (nat_of_digits ds))) else None)
                else if list_all is_digit t then Some (JNum (int (nat_of_digits t)))
                else None))"

definition ref_parse :: "string \<Rightarrow> json option" where
  "ref_parse s =
     (case s of
        [] \<Rightarrow> None
      | c # rest \<Rightarrow>
          if c = CHR ''['' then
            (if rest \<noteq> [] \<and> last rest = CHR '']'' then
               (if butlast rest = [] then Some (JArr [])
                else map_option JArr (those (map ref_token (split_on CHR '','' (butlast rest)))))
             else None)
          else ref_token s)"

function numeric_chunks :: "string \<Rightarrow> nat list" where
  "numeric_chunks [] = []"
| "numeric_chunks (c # cs) =
     (if is_digit c then nat_of_digits (c # takeWhile is_digit cs) # numeric_chunks (dropWhile is_digit cs)
      else of_char c # numeric_chunks cs)"
  by pat_completeness auto
termination
  by (relation "measure length") (auto simp: length_dropWhile_le le_imp_less_Suc)

definition ref_localeCompare :: "string \<Rightarrow> string \<Rightarrow> int" where
  "ref_localeCompare a b =
     (if numeric_chunks a < numeric_chunks b then - 1
      else if numeric_chunks a = numeric_chunks b then 0 else 1)"

fun ref_ToNumber :: "json \<Rightarrow> number" where
  "ref_ToNumber (JStr s) =
     (if s = [] then Num 0 else if list_all is_digit s then Num (int (nat_of_digits s)) else NaN)"
| "ref_ToNumber v = NaN"

definition ref_pair :: "string \<Rightarrow> string \<times> string" where
  "ref_pair s = (takeWhile (\<lambda>c. c \<noteq> CHR ''='') s, drop 1 (dropWhile (\<lambda>c. c \<noteq> CHR ''='') s))"

definition ref_URLSearchParams :: "string \<Rightarrow> (string \<times> string) list" where
  "ref_URLSearchParams s =
     map ref_pair
       (filter (\<lambda>t. t \<noteq> [])
          (split_on CHR ''&'' (case s of [] \<Rightarrow> [] | c # cs \<Rightarrow> if c = CHR ''?'' then cs else c # cs)))"

definition reference_platform :: platform where
  "reference_platform =
     \<lparr>localeCompare = ref_localeCompare,
      JSON_parse = ref_parse,
      JSON_stringify = ref_stringify,
      ToNumber = ref_ToNumber,
      URLSearchParams = ref_URLSearchParams\<rparr>"

text \<open>An empty store that accepts writes, and an empty event.\<close>

definition empty_storage :: storage where
  "empty_storage = \<lparr>items = (\<lambda>k. None), quota_exceeded = False\<rparr>"

definition blank_event :: event where
  "blank_event =
     \<lparr>ev_id = None, ev_episode = None, ev_type = None, ev_timestamp = None, ev_date = None,
      ev_notes = None, ev_side = None, ev_level = None, ev_species = None, ev_from = None,
      ev_to = None, ev_badge = None, ev_badgeName = None, ev_name = None, ev_failed = False,
      ev_flags_failed = False, ev_failedEncounter = False, ev_illegal = False,
      ev_flags_illegal = False, ev_illegalEncounter = False, ev_special = None,
      ev_pokemon = None\<rparr>"

definition blank_page :: page where
  "blank_page =
     \<lparr>timeline = Some [], message_text = None, episode_selector = [],
      local_storage = empty_storage, CURRENT_RUN_ID = None,
      location_search = [], location_hash = []\<rparr>"

text \<open>A store that holds one raw value for a run.\<close>

definition stored :: "string \<Rightarrow> string \<Rightarrow> storage" where
  "stored runId raw = empty_storage\<lparr>items := (items empty_storage)(COLLAPSED_KEY_PREFIX @ runId \<mapsto> raw)\<rparr>"

text \<open>A run index with two runs.\<close>

definition demo_runs :: "run list" where
  "demo_runs = [\<lparr>run_id = ''run-01'', run_title = None\<rparr>, \<lparr>run_id = ''run-03'', run_title = Some ''Third''\<rparr>]"

text \<open>A page that shows episodes 4 and 5, with episodes 5 and 9 stored as collapsed.\<close>

definition demo_page :: page where
  "demo_page =
     blank_page\<lparr>timeline := Some [build_section [Num 5, Num 9] (4, []),
                                   build_section [Num 5, Num 9] (5, [])],
                local_storage := stored ''run-02'' ''[5,9]''\<rparr>"

text \<open>Four events, out of order: two of episode 2, a run end in episode 1, one without an episode.\<close>

definition ev_a :: event where
  "ev_a = blank_event\<lparr>ev_episode := Some 2, ev_timestamp := Some ''10:00'', ev_type := Some ''caught''\<rparr>"

definition ev_b :: event where
  "ev_b = blank_event\<lparr>ev_episode := Some 1, ev_timestamp := Some ''1:10:00'', ev_type := Some ''Run_End'', ev_date := Some ''May 1''\<rparr>"

definition ev_c :: event where
  "ev_c = blank_event\<lparr>ev_episode := Some 2, ev_timestamp := Some ''9:00'', ev_type := Some ''badge''\<rparr>"

definition ev_d :: event where
  "ev_d = blank_event\<lparr>ev_timestamp := Some ''0:05'', ev_type := Some ''fainted''\<rparr>"

definition demo_events :: "event list" where
  "demo_events = [ev_a, ev_b, ev_c, ev_d]"

text \<open>A blank page whose store already holds an empty list for the default run.\<close>

definition seen_page :: page where
  "seen_page = blank_page\<lparr>local_storage := stored ''run-02'' ''[]''\<rparr>"

subsection \<open>The reference browser meets what is asked\<close>

lemma digit_val_digit_char: "d < 10 \<Longrightarrow> digit_val (digit_char d) = d"
proof -
  assume "d < 10"
  then have "d \<in> {0, 1, 2, 3, 4, 5, 6, 7, 8, 9}" by auto
  then show ?thesis by (auto simp: digit_val_def digit_char_def)
qed

lemma is_digit_digit_char: "d < 10 \<Longrightarrow> is_digit (digit_char d)"
proof -
  assume "d < 10"
  then have "d \<in> {0, 1, 2, 3, 4, 5, 6, 7, 8, 9}" by auto
  then show ?thesis by (auto simp: is_digit_def digit_char_def)
qed

lemma nat_of_digits_snoc: "nat_of_digits (ds @ [c]) = 10 * nat_of_digits ds + digit_val c"
  by (simp add: nat_of_digits_def)

lemma nat_of_digits_digits_of: "nat_of_digits (digits_of n) = n"
proof (induction n rule: digits_of.induct)
  case (1 n)
  show ?case
  proof (cases "n < 10")
    case True
    then have "digits_of n = [digit_char n]" by (subst digits_of.simps) simp
    then show ?thesis
      using True by (simp add: digit_val_digit_char nat_of_digits_def)
  next
    case False
    then have "nat_of_digits (digits_of n) = 10 * (n div 10) + n mod 10"
      using 1 by (subst digits_of.simps) (simp add: nat_of_digits_snoc digit_val_digit_char)
    then show ?thesis by simp
  qed
qed

lemma digits_of_all_digits: "list_all is_digit (digits_of n)"
proof (induction n rule: digits_of.induct)
  case (1 n)
  show ?case
    using 1 by (subst digits_of.simps) (simp add: is_digit_digit_char)
qed

lemma digits_of_nonempty: "digits_of n \<noteq> []"
  by (subst digits_of.simps) simp

lemma all_digits_not_word:
  "list_all is_digit t \<Longrightarrow> t \<noteq> ''null'' \<and> t \<noteq> ''true'' \<and> t \<noteq> ''false''"
  by (auto simp: is_digit_def)

lemma all_digits_hd_not_minus: "list_all is_digit (c # ds) \<Longrightarrow> c \<noteq> CHR ''-''"
  by (auto simp: is_digit_def)

lemma ref_token_String_of_int: "ref_token (String_of_int i) = Some (JNum i)"
proof (cases "i < 0")
  case True
  then show ?thesis
    by (simp add: ref_token_def String_of_int_def digits_of_nonempty digits_of_all_digits
        nat_of_digits_digits_of)
next
  case False
  obtain c ds where cd: "digits_of (nat i) = c # ds"
    using digits_of_nonempty [of "nat i"] by (cases "digits_of (nat i)") auto
  have all: "list_all is_digit (c # ds)"
    using digits_of_all_digits [of "nat i"] cd by simp
  have val: "nat_of_digits (c # ds) = nat i"
    using nat_of_digits_digits_of [of "nat i"] cd by simp
  show ?thesis
    using False all_digits_not_word [OF all] all_digits_hd_not_minus [OF all] all val
    by (simp add: ref_token_def String_of_int_def cd)
qed

lemma split_on_nonempty: "split_on c s \<noteq> []"
  by (induction s) (auto split: list.splits)

lemma split_on_no_sep: "c \<notin> set t \<Longrightarrow> split_on c t = [t]"
  by (induction t) auto

lemma split_on_append: "c \<notin> set t \<Longrightarrow> split_on c (t @ c # r) = t # split_on c r"
  by (induction t) (auto split: list.splits simp: split_on_nonempty)

lemma split_on_join:
  "ts \<noteq> [] \<Longrightarrow> \<forall>t\<in>set ts. CHR '','' \<notin> set t \<Longrightarrow> split_on CHR '','' (join_commas ts) = ts"
  by (induction ts rule: join_commas.induct) (auto simp: split_on_no_sep split_on_append)

lemma digits_no_comma: "list_all is_digit t \<Longrightarrow> CHR '','' \<notin> set t"
  by (induction t) (auto simp: is_digit_def)

lemma String_of_int_no_comma: "CHR '','' \<notin> set (String_of_int i)"
  using digits_no_comma [OF digits_of_all_digits] by (simp add: String_of_int_def)

lemma String_of_int_nonempty: "String_of_int i \<noteq> []"
  by (simp add: String_of_int_def digits_of_nonempty)

lemma join_commas_nonempty: "ts \<noteq> [] \<Longrightarrow> \<forall>t\<in>set ts. t \<noteq> [] \<Longrightarrow> join_commas ts \<noteq> []"
  by (induction ts rule: join_commas.induct) auto

lemma those_tokens: "those (map ref_token (map String_of_int ns)) = Some (map JNum ns)"
  by (induction ns) (auto simp: ref_token_String_of_int)

lemma ref_roundtrip:
  "ref_parse (ref_stringify (JArr (map JNum ns))) = Some (JArr (map JNum ns))"
proof (cases ns)
  case Nil
  then show ?thesis by (simp add: ref_parse_def)
next
  case (Cons n ms)
  let ?ts = "map String_of_int ns"
  have ne: "?ts \<noteq> []" using Cons by simp
  have nocomma: "\<forall>t\<in>set ?ts. CHR '','' \<notin> set t" by (auto simp: String_of_int_no_comma)
  have nonempty: "\<forall>t\<in>set ?ts. t \<noteq> []" by (auto simp: String_of_int_nonempty)
  have body: "join_commas ?ts \<noteq> []" by (rule join_commas_nonempty [OF ne nonempty])
  have sc: "map ref_scalar (map JNum ns) = ?ts" by simp
  show ?thesis
    unfolding ref_stringify.simps sc ref_parse_def
    using body split_on_join [OF ne nocomma] those_tokens [of ns]
    by (simp add: butlast_append)
qed

lemma reference_json_roundtrip: "json_roundtrip reference_platform"
  using ref_roundtrip by (simp add: json_roundtrip_def reference_platform_def)

lemma reference_consistent_compare: "consistent_compare reference_platform"
  by (auto simp: consistent_compare_def reference_platform_def ref_localeCompare_def
      split: if_splits)

section \<open>Properties of the collapsed-state store\<close>

lemma foldl_Set_add: "distinct (acc @ xs) \<Longrightarrow> foldl (\<lambda>s x. Set_add x s) acc xs = acc @ xs"
  by (induction xs arbitrary: acc) (auto simp: Set_add_def)

lemma Set_of_array_distinct: "distinct xs \<Longrightarrow> Set_of_array xs = xs"
  using foldl_Set_add [of "[]" xs] by (simp add: Set_of_array_def)

lemma distinct_foldl_Set_add: "distinct acc \<Longrightarrow> distinct (foldl (\<lambda>s x. Set_add x s) acc xs)"
  by (induction xs arbitrary: acc) (auto simp: Set_add_def)

lemma distinct_Set_of_array: "distinct (Set_of_array xs)"
  using distinct_foldl_Set_add [of "[]" xs] by (simp add: Set_of_array_def)

lemma distinct_loadCollapsedMap: "distinct (loadCollapsedMap P runId st)"
  by (simp add: loadCollapsedMap_def loadCollapsedMap_body_def distinct_Set_of_array
      split: option.splits)

lemma ints_of_numbers: "NaN \<notin> set s \<Longrightarrow> \<exists>ns. s = map Num ns"
proof (induction s)
  case Nil then show ?case by simp
next
  case (Cons x s)
  then obtain ns where ns: "s = map Num ns" by auto
  obtain n where n: "x = Num n" using Cons.prems by (cases x) auto
  have "x # s = map Num (n # ns)" using ns n by simp
  then show ?case ..
qed

lemma json_of_number_Num: "map json_of_number (map Num ns) = map JNum ns"
  by simp

lemma Number_js_JNum: "map (Number_js P) (map JNum ns) = map Num ns"
  by simp

lemma load_after_save_ints:
  assumes rt: "json_roundtrip P" and q: "\<not> quota_exceeded st"
  shows "loadCollapsedMap P runId (saveCollapsedMap P runId (map Num ns) st) = Set_of_array (map Num ns)"
proof -
  let ?raw = "JSON_stringify P (JArr (map JNum ns))"
  have raw: "?raw \<noteq> []" and parse: "JSON_parse P ?raw = Some (JArr (map JNum ns))"
    using rt by (auto simp: json_roundtrip_def)
  have st': "saveCollapsedMap P runId (map Num ns) st
      = st\<lparr>items := (items st)(COLLAPSED_KEY_PREFIX @ runId \<mapsto> ?raw)\<rparr>"
    using q unfolding saveCollapsedMap_def saveCollapsedMap_body_def setItem_def json_of_number_Num
    by simp
  show ?thesis
    unfolding st' loadCollapsedMap_def loadCollapsedMap_body_def getItem_def
    using raw parse by (simp del: map_map add: Number_js_JNum)
qed

lemma load_after_save:
  assumes rt: "json_roundtrip P" and q: "\<not> quota_exceeded st"
    and nn: "NaN \<notin> set s"
  shows "loadCollapsedMap P runId (saveCollapsedMap P runId s st) = Set_of_array s"
  using ints_of_numbers [OF nn] load_after_save_ints [OF rt q] by auto

text \<open>
  C7. \<^verbatim>\<open>loadCollapsedMap\<close> always returns a set of numbers: when nothing is stored under
  the run's key, when the stored text makes \<^verbatim>\<open>JSON.parse\<close> throw, and when it parses to a
  value that is not an array, the set is empty; an exception raised inside the
  \<^verbatim>\<open>try\<close> block never leaves the function.
\<close>

theorem loadCollapsedMap_tolerant:
  "(getItem st (COLLAPSED_KEY_PREFIX @ runId) = None \<longrightarrow> loadCollapsedMap P runId st = []) \<and>
   (\<forall>raw. getItem st (COLLAPSED_KEY_PREFIX @ runId) = Some raw \<and> JSON_parse P raw = None
      \<longrightarrow> loadCollapsedMap P runId st = []) \<and>
   (\<forall>raw v. getItem st (COLLAPSED_KEY_PREFIX @ runId) = Some raw \<and> JSON_parse P raw = Some v
        \<and> \<not> isArray v \<longrightarrow> loadCollapsedMap P runId st = []) \<and>
   (\<forall>e. loadCollapsedMap_body P runId st = Inl e \<longrightarrow> loadCollapsedMap P runId st = []) \<and>
   distinct (loadCollapsedMap P runId st)"
  by (auto simp: loadCollapsedMap_def loadCollapsedMap_body_def distinct_Set_of_array
      split: option.splits)

theorem loadCollapsedMap_tolerant_witness:
  "getItem empty_storage (COLLAPSED_KEY_PREFIX @ ''run-02'') = None
   \<and> loadCollapsedMap reference_platform ''run-02'' empty_storage = []
   \<and> getItem (stored ''run-02'' ''{oops'') (COLLAPSED_KEY_PREFIX @ ''run-02'') = Some ''{oops''
   \<and> JSON_parse reference_platform ''{oops'' = None
   \<and> loadCollapsedMap_body reference_platform ''run-02'' (stored ''run-02'' ''{oops'') = Inl SyntaxError
   \<and> loadCollapsedMap reference_platform ''run-02'' (stored ''run-02'' ''{oops'') = []
   \<and> getItem (stored ''run-02'' ''null'') (COLLAPSED_KEY_PREFIX @ ''run-02'') = Some ''null''
   \<and> JSON_parse reference_platform ''null'' = Some JNull \<and> \<not> isArray JNull
   \<and> loadCollapsedMap reference_platform ''run-02'' (stored ''run-02'' ''null'') = []"
proof -
  have a: "getItem empty_storage (COLLAPSED_KEY_PREFIX @ ''run-02'') = None"
    by (simp add: getItem_def empty_storage_def)
  have b: "getItem (stored ''run-02'' ''{oops'') (COLLAPSED_KEY_PREFIX @ ''run-02'') = Some ''{oops''"
    by (simp add: getItem_def stored_def)
  have c: "JSON_parse reference_platform ''{oops'' = None"
    by (simp add: reference_platform_def ref_parse_def ref_token_def is_digit_def)
  have d: "getItem (stored ''run-02'' ''null'') (COLLAPSED_KEY_PREFIX @ ''run-02'') = Some ''null''"
    by (simp add: getItem_def stored_def)
  have e: "JSON_parse reference_platform ''null'' = Some JNull"
    by (simp add: reference_platform_def ref_parse_def ref_token_def)
  have f: "loadCollapsedMap_body reference_platform ''run-02'' (stored ''run-02'' ''{oops'') = Inl SyntaxError"
    using b c by (simp add: loadCollapsedMap_body_def)
  show ?thesis
    using a b c d e f
      loadCollapsedMap_tolerant [of empty_storage "''run-02''" reference_platform]
      loadCollapsedMap_tolerant [of "stored ''run-02'' ''{oops''" "''run-02''" reference_platform]
      loadCollapsedMap_tolerant [of "stored ''run-02'' ''null''" "''run-02''" reference_platform]
    by simp
qed

text \<open>
  C9. When \<^verbatim>\<open>saveCollapsedMap\<close> succeeds in writing a set of episode numbers, the
  \<^verbatim>\<open>loadCollapsedMap\<close> that follows returns the same set, with its members in the same
  order.
\<close>

theorem save_load_roundtrip:
  assumes "json_roundtrip P"
    and "saveCollapsedMap_body P runId (map Num ns) st = Inr st'"
    and "distinct ns"
  shows "saveCollapsedMap P runId (map Num ns) st = st' \<and>
         loadCollapsedMap P runId st' = map Num ns"
proof -
  have q: "\<not> quota_exceeded st"
    using assms(2) by (auto simp: saveCollapsedMap_body_def setItem_def split: if_splits)
  have s: "saveCollapsedMap P runId (map Num ns) st = st'"
    using assms(2) by (simp add: saveCollapsedMap_def)
  have nn: "NaN \<notin> set (map Num ns)" by auto
  have d: "distinct (map Num ns)" using assms(3) by (simp add: distinct_map inj_on_def)
  show ?thesis
    using load_after_save [OF assms(1) q nn, of runId] s Set_of_array_distinct [OF d] by simp
qed

theorem save_load_roundtrip_witness:
  "json_roundtrip reference_platform \<and>
   saveCollapsedMap_body reference_platform ''run-02'' (map Num [3, 1]) empty_storage
     = Inr (stored ''run-02'' ''[3,1]'') \<and> distinct [3, 1 :: int] \<and>
   loadCollapsedMap reference_platform ''run-02'' (stored ''run-02'' ''[3,1]'') = [Num 3, Num 1]"
proof -
  have b: "saveCollapsedMap_body reference_platform ''run-02'' (map Num [3, 1]) empty_storage
     = Inr (stored ''run-02'' ''[3,1]'')"
    by (simp add: saveCollapsedMap_body_def setItem_def empty_storage_def stored_def
        reference_platform_def String_of_int_def digits_of.simps digit_char_def)
  have d: "distinct [3, 1 :: int]" by simp
  show ?thesis
    using save_load_roundtrip [OF reference_json_roundtrip b d] reference_json_roundtrip b
    by simp
qed

section \<open>Properties of the image names\<close>

lemma hyphen_not_space: "\<not> is_space CHR ''-''"
  by (simp add: is_space_def)

lemma whitespace_to_hyphen_no_space: "c \<in> set (whitespace_to_hyphen s) \<Longrightarrow> \<not> is_space c"
proof (induction s rule: whitespace_to_hyphen.induct)
  case 1
  then show ?case by simp
next
  case (2 d ds)
  show ?case
  proof (cases "is_space d")
    case True
    then have "c = CHR ''-'' \<or> c \<in> set (whitespace_to_hyphen (dropWhile is_space ds))"
      using 2(3) by simp
    then show ?thesis using 2(1) True hyphen_not_space by blast
  next
    case False
    then have "c = d \<or> c \<in> set (whitespace_to_hyphen ds)"
      using 2(3) by simp
    then show ?thesis using 2(2) False by blast
  qed
qed











section \<open>The first run shown\<close>

lemma find_run_id:
  "map_option run_id (find (\<lambda>r. Some (run_id r) = p) runs)
     = (if \<exists>r\<in>set runs. Some (run_id r) = p then p else None)"
proof (cases "find (\<lambda>r. Some (run_id r) = p) runs")
  case None
  then show ?thesis by (auto simp: find_None_iff)
next
  case (Some r)
  then have "Some (run_id r) = p \<and> r \<in> set runs"
    by (auto simp: find_Some_iff)
  then show ?thesis using Some by auto
qed

text \<open>
  C8. The run shown first is the \<^verbatim>\<open>run\<close> query parameter when it is the id of a run of
  the index; otherwise the configured default id; otherwise, were no default configured,
  the id of the first run of the index. With the default \<^verbatim>\<open>"run-02"\<close> of the script the
  choice is the matching parameter or the default.
\<close>

theorem initial_run_precedence:
  "initial_run_for d runParam runs =
     (if truthy runParam \<and> (\<exists>r\<in>set runs. Some (run_id r) = runParam) then runParam
      else if d \<noteq> [] then Some d
      else if runs \<noteq> [] \<and> run_id (hd runs) \<noteq> [] then Some (run_id (hd runs))
      else Some d) \<and>
   initial_run P search runs =
     (if truthy (params_get ''run'' (URLSearchParams P search)) \<and>
         (\<exists>r\<in>set runs. Some (run_id r) = params_get ''run'' (URLSearchParams P search))
      then params_get ''run'' (URLSearchParams P search)
      else Some DEFAULT_RUN_ID)"
proof -
  have gen: "\<And>d runParam. initial_run_for d runParam runs =
     (if truthy runParam \<and> (\<exists>r\<in>set runs. Some (run_id r) = runParam) then runParam
      else if d \<noteq> [] then Some d
      else if runs \<noteq> [] \<and> run_id (hd runs) \<noteq> [] then Some (run_id (hd runs))
      else Some d)"
    unfolding initial_run_for_def find_run_id
    by (cases runs) (auto simp: js_or_def js_and_def truthy_def)
  have d: "DEFAULT_RUN_ID \<noteq> []" by (simp add: DEFAULT_RUN_ID_def)
  show ?thesis
    unfolding initial_run_def gen using d by auto
qed

theorem initial_run_precedence_witness:
  "initial_run reference_platform ''?run=run-03'' demo_runs = Some ''run-03'' \<and>
   initial_run reference_platform ''?run=run-09'' demo_runs = Some ''run-02'' \<and>
   initial_run reference_platform '''' demo_runs = Some ''run-02'' \<and>
   initial_run_for '''' None demo_runs = Some ''run-01''"
proof -
  have a: "params_get ''run'' (URLSearchParams reference_platform ''?run=run-03'') = Some ''run-03''"
    by (simp add: params_get_def reference_platform_def ref_URLSearchParams_def ref_pair_def)
  have b: "params_get ''run'' (URLSearchParams reference_platform ''?run=run-09'') = Some ''run-09''"
    by (simp add: params_get_def reference_platform_def ref_URLSearchParams_def ref_pair_def)
  have c: "params_get ''run'' (URLSearchParams reference_platform '''') = None"
    by (simp add: params_get_def reference_platform_def ref_URLSearchParams_def ref_pair_def)
  have r: "set demo_runs = {\<lparr>run_id = ''run-01'', run_title = None\<rparr>, \<lparr>run_id = ''run-03'', run_title = Some ''Third''\<rparr>}"
    by (simp add: demo_runs_def)
  have h: "hd demo_runs = \<lparr>run_id = ''run-01'', run_title = None\<rparr>" "demo_runs \<noteq> []"
    by (simp_all add: demo_runs_def)
  show ?thesis
    using initial_run_precedence [of "''''" None demo_runs reference_platform "''?run=run-03''"]
      initial_run_precedence [of "''''" None demo_runs reference_platform "''?run=run-09''"]
      initial_run_precedence [of "''''" None demo_runs reference_platform "''''"]
    unfolding a b c r
    by (simp add: h truthy_def DEFAULT_RUN_ID_def)
qed

section \<open>Properties of expanding and collapsing\<close>

lemma Set_add_set: "set (Set_add x s) = insert x (set s)"
  by (auto simp: Set_add_def)

lemma Set_delete_set: "set (Set_delete x s) = set s - {x}"
  by (auto simp: Set_delete_def)

lemma Set_add_distinct: "distinct s \<Longrightarrow> distinct (Set_add x s)"
  by (auto simp: Set_add_def)

lemma Set_delete_distinct: "distinct s \<Longrightarrow> distinct (Set_delete x s)"
  by (auto simp: Set_delete_def)

lemma quota_saveCollapsedMap:
  "quota_exceeded (saveCollapsedMap P runId s st) = quota_exceeded st"
  by (simp add: saveCollapsedMap_def saveCollapsedMap_body_def setItem_def)

lemma items_saveCollapsedMap_other:
  "k \<noteq> COLLAPSED_KEY_PREFIX @ runId \<Longrightarrow> items (saveCollapsedMap P runId s st) k = items st k"
  by (simp add: saveCollapsedMap_def saveCollapsedMap_body_def setItem_def)

lemma saveCollapsedMap_full: "quota_exceeded st \<Longrightarrow> saveCollapsedMap P runId s st = st"
  by (simp add: saveCollapsedMap_def saveCollapsedMap_body_def setItem_def)

lemma load_save_id:
  assumes "json_roundtrip P" "\<not> quota_exceeded st" "NaN \<notin> set s" "distinct s"
  shows "loadCollapsedMap P runId (saveCollapsedMap P runId s st) = s"
  using load_after_save [OF assms(1,2,3)] Set_of_array_distinct [OF assms(4)] by simp

lemma toggle_missing:
  "find (\<lambda>sec. data_episode sec = n) (sections_of pg) = None \<Longrightarrow>
   toggleEpisodeSection P runId (Num n) expand pg = pg"
  by (simp add: toggleEpisodeSection_def)

lemma toggle_found:
  assumes "find (\<lambda>sec. data_episode sec = n) (sections_of pg) = Some sec"
  shows "toggleEpisodeSection P runId (Num n) expand pg =
     pg\<lparr>timeline := Some (update_first (\<lambda>sec. data_episode sec = n)
                            (set_expanded (will_expand expand sec)) (sections_of pg)),
        local_storage := saveCollapsedMap P runId
           (if will_expand expand sec
            then Set_delete (Num n) (loadCollapsedMap P runId (local_storage pg))
            else Set_add (Num n) (loadCollapsedMap P runId (local_storage pg)))
           (local_storage pg)\<rparr>"
  using assms by (simp add: toggleEpisodeSection_def Let_def)

lemma find_update_first:
  "(\<And>x. p (f x) = p x) \<Longrightarrow> find p (update_first p f xs) = map_option f (find p xs)"
  by (induction xs) auto

lemma map_update_first:
  "(\<And>x. g (f x) = g x) \<Longrightarrow> map g (update_first p f xs) = map g xs"
  by (induction xs) auto

lemma data_episode_set_expanded: "data_episode (set_expanded b sec) = data_episode sec"
  by (simp add: set_expanded_def)

lemma toggle_quota:
  "quota_exceeded (local_storage (toggleEpisodeSection P runId ep expand pg))
     = quota_exceeded (local_storage pg)"
  by (simp add: toggleEpisodeSection_def Let_def quota_saveCollapsedMap
      split: number.splits option.splits)

lemma toggle_items_other:
  "k \<noteq> COLLAPSED_KEY_PREFIX @ runId \<Longrightarrow>
   items (local_storage (toggleEpisodeSection P runId ep expand pg)) k = items (local_storage pg) k"
  by (simp add: toggleEpisodeSection_def Let_def items_saveCollapsedMap_other
      split: number.splits option.splits)

lemma toggle_episodes:
  "map data_episode (sections_of (toggleEpisodeSection P runId ep expand pg))
     = map data_episode (sections_of pg)"
  by (simp add: toggleEpisodeSection_def Let_def sections_of_def map_update_first
      data_episode_set_expanded split: number.splits option.splits)

lemma toggle_section:
  assumes "find (\<lambda>sec. data_episode sec = n) (sections_of pg) = Some sec"
  shows "find (\<lambda>sec. data_episode sec = n)
           (sections_of (toggleEpisodeSection P runId (Num n) expand pg))
         = Some (set_expanded (will_expand expand sec) sec)"
  unfolding toggle_found [OF assms]
  using assms by (simp add: sections_of_def find_update_first data_episode_set_expanded)

lemma toggle_load:
  assumes rt: "json_roundtrip P" and q: "\<not> quota_exceeded (local_storage pg)"
    and nn: "NaN \<notin> set (loadCollapsedMap P runId (local_storage pg))"
    and f: "find (\<lambda>sec. data_episode sec = n) (sections_of pg) = Some sec"
  shows "loadCollapsedMap P runId (local_storage (toggleEpisodeSection P runId (Num n) expand pg))
     = (if will_expand expand sec
        then Set_delete (Num n) (loadCollapsedMap P runId (local_storage pg))
        else Set_add (Num n) (loadCollapsedMap P runId (local_storage pg)))"
proof -
  let ?L = "loadCollapsedMap P runId (local_storage pg)"
  let ?L' = "if will_expand expand sec then Set_delete (Num n) ?L else Set_add (Num n) ?L"
  have d: "distinct ?L'"
    using distinct_loadCollapsedMap [of P runId "local_storage pg"]
    by (simp add: Set_add_distinct Set_delete_distinct)
  have n: "NaN \<notin> set ?L'" using nn by (simp add: Set_add_set Set_delete_set)
  show ?thesis
    unfolding toggle_found [OF f] using load_save_id [OF rt q n d] by simp
qed


lemma data_episode_build_section: "data_episode (build_section persisted g) = fst g"
  by (simp add: build_section_def Let_def)

text \<open>The set that \<^verbatim>\<open>setAllCollapsed\<close> carries along while it walks the sections.\<close>

definition bulk_update :: "bool \<Rightarrow> number list \<Rightarrow> episode_section list \<Rightarrow> number list" where
  "bulk_update collapsed m secs =
     foldl (\<lambda>m sec. if collapsed then Set_add (Num (data_episode sec)) m
                     else Set_delete (Num (data_episode sec)) m) m secs"

lemma setAll_fold_snd:
  "snd (foldl (setAllCollapsed_step P runId collapsed) (pg, m) secs) = bulk_update collapsed m secs"
  unfolding bulk_update_def
  by (induction secs arbitrary: pg m) (simp_all add: setAllCollapsed_step_def Let_def)

lemma setAll_fold_quota:
  "quota_exceeded (local_storage (fst (foldl (setAllCollapsed_step P runId collapsed) (pg, m) secs)))
     = quota_exceeded (local_storage pg)"
  by (induction secs arbitrary: pg m) (simp_all add: setAllCollapsed_step_def Let_def toggle_quota)

lemma setAll_fold_items_other:
  "k \<noteq> COLLAPSED_KEY_PREFIX @ runId \<Longrightarrow>
   items (local_storage (fst (foldl (setAllCollapsed_step P runId collapsed) (pg, m) secs))) k
     = items (local_storage pg) k"
  by (induction secs arbitrary: pg m) (simp_all add: setAllCollapsed_step_def Let_def toggle_items_other)

lemma setAll_fold_episodes:
  "map data_episode (sections_of (fst (foldl (setAllCollapsed_step P runId collapsed) (pg, m) secs)))
     = map data_episode (sections_of pg)"
  by (induction secs arbitrary: pg m) (simp_all add: setAllCollapsed_step_def Let_def toggle_episodes)

lemma bulk_update_set:
  "set (bulk_update collapsed m secs) =
     (if collapsed then set m \<union> Num ` data_episode ` set secs
      else set m - Num ` data_episode ` set secs)"
  unfolding bulk_update_def
  by (induction secs arbitrary: m) (auto simp: Set_add_set Set_delete_set)

lemma bulk_update_distinct: "distinct m \<Longrightarrow> distinct (bulk_update collapsed m secs)"
  unfolding bulk_update_def
  by (induction secs arbitrary: m) (auto simp: Set_add_distinct Set_delete_distinct)

lemma setAllCollapsed_storage:
  "local_storage (setAllCollapsed P runId collapsed pg) =
     saveCollapsedMap P runId
       (bulk_update collapsed (loadCollapsedMap P runId (local_storage pg)) (sections_of pg))
       (local_storage (fst (foldl (setAllCollapsed_step P runId collapsed)
          (pg, loadCollapsedMap P runId (local_storage pg)) (sections_of pg))))"
  using setAll_fold_snd [of P runId collapsed pg "loadCollapsedMap P runId (local_storage pg)" "sections_of pg"]
  by (auto simp: setAllCollapsed_def Let_def split: prod.splits)

lemma demo_load: "loadCollapsedMap reference_platform ''run-02'' (stored ''run-02'' ''[5,9]'') = [Num 5, Num 9]"
  by (simp add: loadCollapsedMap_def loadCollapsedMap_body_def getItem_def stored_def
      reference_platform_def ref_parse_def ref_token_def is_digit_def nat_of_digits_def
      digit_val_def Set_of_array_def Set_add_def)

lemma demo_episodes: "data_episode ` set (sections_of demo_page) = {4, 5}"
  by (simp add: demo_page_def sections_of_def data_episode_build_section)

text \<open>
  C10. \<^verbatim>\<open>setAllCollapsed\<close> changes the stored set of a run only at the episodes that have
  a section on the page: collapsing adds exactly these episodes, expanding removes exactly
  these, and every other member of the stored set stays, as does everything stored under
  another key. This is for a store that takes the write and holds numbers only.
\<close>

theorem setAllCollapsed_frame:
  assumes "json_roundtrip P"
    and "\<not> quota_exceeded (local_storage pg)"
    and "NaN \<notin> set (loadCollapsedMap P runId (local_storage pg))"
  shows "set (loadCollapsedMap P runId (local_storage (setAllCollapsed P runId collapsed pg))) =
           (if collapsed
            then set (loadCollapsedMap P runId (local_storage pg))
                   \<union> Num ` data_episode ` set (sections_of pg)
            else set (loadCollapsedMap P runId (local_storage pg))
                   - Num ` data_episode ` set (sections_of pg)) \<and>
         (\<forall>k. k \<noteq> COLLAPSED_KEY_PREFIX @ runId \<longrightarrow>
              getItem (local_storage (setAllCollapsed P runId collapsed pg)) k
                = getItem (local_storage pg) k)"
proof -
  let ?L = "loadCollapsedMap P runId (local_storage pg)"
  let ?M = "bulk_update collapsed ?L (sections_of pg)"
  let ?st = "local_storage (fst (foldl (setAllCollapsed_step P runId collapsed) (pg, ?L) (sections_of pg)))"
  have q: "\<not> quota_exceeded ?st" using assms(2) by (simp add: setAll_fold_quota)
  have d: "distinct ?M" by (rule bulk_update_distinct [OF distinct_loadCollapsedMap])
  have n: "NaN \<notin> set ?M" using assms(3) by (auto simp: bulk_update_set)
  have l: "loadCollapsedMap P runId (local_storage (setAllCollapsed P runId collapsed pg)) = ?M"
    unfolding setAllCollapsed_storage by (rule load_save_id [OF assms(1) q n d])
  have o: "\<forall>k. k \<noteq> COLLAPSED_KEY_PREFIX @ runId \<longrightarrow>
              getItem (local_storage (setAllCollapsed P runId collapsed pg)) k
                = getItem (local_storage pg) k"
    unfolding setAllCollapsed_storage getItem_def
    by (simp add: items_saveCollapsedMap_other setAll_fold_items_other)
  show ?thesis using l o by (simp add: bulk_update_set)
qed


theorem setAllCollapsed_frame_witness:
  "json_roundtrip reference_platform \<and>
   \<not> quota_exceeded (local_storage demo_page) \<and>
   NaN \<notin> set (loadCollapsedMap reference_platform ''run-02'' (local_storage demo_page)) \<and>
   set (loadCollapsedMap reference_platform ''run-02''
          (local_storage (setAllCollapsed reference_platform ''run-02'' True demo_page)))
     = {Num 5, Num 9, Num 4} \<and>
   set (loadCollapsedMap reference_platform ''run-02''
          (local_storage (setAllCollapsed reference_platform ''run-02'' False demo_page)))
     = {Num 9}"
proof -
  have st: "local_storage demo_page = stored ''run-02'' ''[5,9]''" by (simp add: demo_page_def)
  have q: "\<not> quota_exceeded (local_storage demo_page)"
    by (simp add: st stored_def empty_storage_def)
  have n: "NaN \<notin> set (loadCollapsedMap reference_platform ''run-02'' (local_storage demo_page))"
    by (simp add: st demo_load)
  show ?thesis
    using q n reference_json_roundtrip
      setAllCollapsed_frame [OF reference_json_roundtrip q n, of True, THEN conjunct1]
      setAllCollapsed_frame [OF reference_json_roundtrip q n, of False, THEN conjunct1]
    unfolding demo_episodes st demo_load
    by auto
qed


section \<open>Properties of permalinks\<close>












section \<open>Properties of sorting and grouping\<close>



lemma set_insort_by: "set (insort_by cmp x xs) = insert x (set xs)"
  by (induction xs) auto

lemma set_Array_sort: "set (Array_sort cmp xs) = set xs"
  by (induction xs) (auto simp: set_insort_by)

lemma sorted_insort_by:
  assumes tot: "\<And>a b. 0 < cmp a b \<Longrightarrow> cmp b a \<le> 0"
    and tr: "\<And>a b c. cmp a b \<le> 0 \<Longrightarrow> cmp b c \<le> 0 \<Longrightarrow> cmp a c \<le> 0"
  shows "sorted_wrt (\<lambda>a b. cmp a b \<le> 0) xs \<Longrightarrow> sorted_wrt (\<lambda>a b. cmp a b \<le> 0) (insort_by cmp x xs)"
proof (induction xs)
  case Nil
  then show ?case by simp
next
  case (Cons y ys)
  show ?case
  proof (cases "cmp x y \<le> 0")
    case True
    then have "\<forall>z\<in>set ys. cmp x z \<le> 0" using Cons.prems tr by auto
    then show ?thesis using True Cons.prems by simp
  next
    case False
    then have yx: "cmp y x \<le> 0" using tot [of x y] by simp
    have "sorted_wrt (\<lambda>a b. cmp a b \<le> 0) (insort_by cmp x ys)"
      using Cons by simp
    then show ?thesis using False yx Cons.prems by (simp add: set_insort_by)
  qed
qed

lemma sorted_Array_sort:
  assumes tot: "\<And>a b. 0 < cmp a b \<Longrightarrow> cmp b a \<le> 0"
    and tr: "\<And>a b c. cmp a b \<le> 0 \<Longrightarrow> cmp b c \<le> 0 \<Longrightarrow> cmp a c \<le> 0"
  shows "sorted_wrt (\<lambda>a b. cmp a b \<le> 0) (Array_sort cmp xs)"
  by (induction xs) (simp_all add: sorted_insort_by [OF tot tr])

lemma compare_events_total:
  assumes "consistent_compare P" "0 < compare_events P a b"
  shows "compare_events P b a \<le> 0"
proof (cases "episode_of a = episode_of b")
  case True
  then have "0 < localeCompare P (timestamp_of a) (timestamp_of b)"
    using assms(2) by (simp add: compare_events_def Let_def)
  then have "localeCompare P (timestamp_of b) (timestamp_of a) \<le> 0"
    using assms(1) unfolding consistent_compare_def by blast
  then show ?thesis using True by (simp add: compare_events_def Let_def)
next
  case False
  then show ?thesis using assms(2) by (simp add: compare_events_def Let_def)
qed

lemma compare_events_trans:
  assumes "consistent_compare P" "compare_events P a b \<le> 0" "compare_events P b c \<le> 0"
  shows "compare_events P a c \<le> 0"
proof -
  have le: "episode_of a \<le> episode_of b" "episode_of b \<le> episode_of c"
    using assms(2,3) by (auto simp: compare_events_def Let_def split: if_splits)
  show ?thesis
  proof (cases "episode_of a = episode_of c")
    case True
    then have eq: "episode_of a = episode_of b" "episode_of b = episode_of c" using le by auto
    have "localeCompare P (timestamp_of a) (timestamp_of b) \<le> 0"
         "localeCompare P (timestamp_of b) (timestamp_of c) \<le> 0"
      using assms(2,3) eq by (auto simp: compare_events_def Let_def)
    then have "localeCompare P (timestamp_of a) (timestamp_of c) \<le> 0"
      using assms(1) unfolding consistent_compare_def by blast
    then show ?thesis using True by (simp add: compare_events_def Let_def)
  next
    case False
    then show ?thesis using le by (simp add: compare_events_def Let_def)
  qed
qed

lemma sorted_events:
  "consistent_compare P \<Longrightarrow>
   sorted_wrt (\<lambda>a b. compare_events P a b \<le> 0) (Array_sort (compare_events P) events)"
  by (rule sorted_Array_sort) (auto intro: compare_events_total compare_events_trans)

lemma compare_le_episode: "compare_events P a b \<le> 0 \<Longrightarrow> episode_of a \<le> episode_of b"
  by (auto simp: compare_events_def Let_def split: if_splits)


lemma group_snoc: "group_by_episode (xs @ [x]) = push_event x (group_by_episode xs)"
  by (simp add: group_by_episode_def)

lemma keys_push_event:
  "map fst (push_event ev g) =
     (if episode_of ev \<in> set (map fst g) then map fst g else map fst g @ [episode_of ev])"
proof (induction g)
  case Nil
  then show ?case by simp
next
  case (Cons h g)
  obtain ep evs where h: "h = (ep, evs)" by (cases h)
  show ?case
  proof (cases "ep = episode_of ev")
    case True
    then show ?thesis by (simp add: h)
  next
    case False
    then show ?thesis using Cons by (simp add: h)
  qed
qed

lemma keys_group: "set (map fst (group_by_episode xs)) = episode_of ` set xs"
  by (induction xs rule: rev_induct) (auto simp: group_snoc keys_push_event group_by_episode_def)

lemma distinct_keys_group: "distinct (map fst (group_by_episode xs))"
  by (induction xs rule: rev_induct) (auto simp: group_snoc keys_push_event group_by_episode_def)




lemma push_event_new:
  "episode_of x \<notin> fst ` set gs \<Longrightarrow> push_event x gs = gs @ [(episode_of x, [x])]"
  by (induction gs) auto

lemma push_event_last:
  "episode_of x \<notin> fst ` set gs \<Longrightarrow>
   push_event x (gs @ [(episode_of x, evs)]) = gs @ [(episode_of x, evs @ [x])]"
  by (induction gs) auto

lemma strict_sorted_last_max:
  "sorted_wrt (<) (ks :: int list) \<Longrightarrow> k \<in> set ks \<Longrightarrow> \<forall>j\<in>set ks. j \<le> k \<Longrightarrow> ks \<noteq> [] \<and> last ks = k"
proof (induction ks)
  case Nil
  then show ?case by simp
next
  case (Cons a ks)
  show ?case
  proof (cases "ks = []")
    case True
    then show ?thesis using Cons.prems by simp
  next
    case False
    have "k \<noteq> a"
    proof
      assume "k = a"
      then have "\<forall>j\<in>set ks. a < j \<and> j \<le> a" using Cons.prems by auto
      then show False using False by (cases ks) auto
    qed
    then have "k \<in> set ks" using Cons.prems by simp
    then show ?thesis using Cons False by simp
  qed
qed

lemma group_sorted:
  "sorted_wrt (\<lambda>a b. episode_of a \<le> episode_of b) xs \<Longrightarrow>
   sorted_wrt (<) (map fst (group_by_episode xs)) \<and> concat (map snd (group_by_episode xs)) = xs"
proof (induction xs rule: rev_induct)
  case Nil
  then show ?case by (simp add: group_by_episode_def)
next
  case (snoc x xs)
  let ?g = "group_by_episode xs"
  have sx: "sorted_wrt (\<lambda>a b. episode_of a \<le> episode_of b) xs"
    and le: "\<forall>e\<in>set xs. episode_of e \<le> episode_of x"
    using snoc.prems by (auto simp: sorted_wrt_append)
  have ih: "sorted_wrt (<) (map fst ?g)" "concat (map snd ?g) = xs"
    using snoc.IH [OF sx] by auto
  have keys: "set (map fst ?g) = episode_of ` set xs" by (rule keys_group)
  have kle: "\<forall>j\<in>set (map fst ?g). j \<le> episode_of x" using le keys by auto
  show ?case
  proof (cases "episode_of x \<in> fst ` set ?g")
    case False
    have lt: "\<forall>j\<in>set (map fst ?g). j < episode_of x"
      using kle False by force
    show ?thesis
      unfolding group_snoc push_event_new [OF False]
      using ih lt by (simp add: sorted_wrt_append)
  next
    case True
    then have m: "episode_of x \<in> set (map fst ?g)" by simp
    have l: "map fst ?g \<noteq> [] \<and> last (map fst ?g) = episode_of x"
      by (rule strict_sorted_last_max [OF ih(1) m kle])
    then have ne: "?g \<noteq> []" by auto
    obtain evs where lg: "last ?g = (episode_of x, evs)"
      using l ne by (cases "last ?g") (auto simp: last_map)
    have split: "?g = butlast ?g @ [(episode_of x, evs)]"
      using ne lg append_butlast_last_id [of ?g] by simp
    have "distinct (map fst (butlast ?g @ [(episode_of x, evs)]))"
      using distinct_keys_group [of xs] split by simp
    then have nb: "episode_of x \<notin> fst ` set (butlast ?g)" by auto
    have p: "push_event x ?g = butlast ?g @ [(episode_of x, evs @ [x])]"
      using push_event_last [OF nb, of evs] split by simp
    have k: "map fst (push_event x ?g) = map fst ?g"
      using m by (simp add: keys_push_event)
    have "concat (map snd ?g) = concat (map snd (butlast ?g)) @ evs"
      by (subst split) simp
    then have c: "concat (map snd (push_event x ?g)) = xs @ [x]"
      unfolding p using ih(2) by simp
    show ?thesis unfolding group_snoc using k c ih(1) by simp
  qed
qed


section \<open>Properties of rendering\<close>


lemma banner_expanded_build_section:
  "banner_expanded (build_section persisted g) = (Num (fst g) \<notin> set persisted)"
  by (simp add: build_section_def Let_def Set_has_def)



lemma handlePermalink_cases:
  "handlePermalinkOnLoad P pg = pg \<or>
   (\<exists>n b. handlePermalinkOnLoad P pg = toggleEpisodeSection P (run_key pg) (Num n) (Some b) pg)"
  by (auto simp: handlePermalinkOnLoad_def Let_def split: prod.splits option.splits number.splits)

lemma handlePermalink_episodes:
  "map data_episode (sections_of (handlePermalinkOnLoad P pg)) = map data_episode (sections_of pg)"
  using handlePermalink_cases [of P pg] by (auto simp: toggle_episodes)


lemma render_sections_timeline:
  "sections_of (render_sections P events pg) =
     map (build_section (fst (resolve_collapsed P (run_key pg) (map fst (episode_groups P events))
                                (local_storage pg))))
         (episode_groups P events)"
  by (simp add: render_sections_def Let_def sections_of_def split: prod.splits)

lemma render_sections_storage:
  "local_storage (render_sections P events pg) =
     snd (resolve_collapsed P (run_key pg) (map fst (episode_groups P events)) (local_storage pg))"
  by (simp add: render_sections_def Let_def split: prod.splits)

lemma episode_groups_Nil: "episode_groups P [] = []"
  by (simp add: episode_groups_def group_by_episode_def)

lemma renderTimeline_nonempty:
  "timeline pg \<noteq> None \<Longrightarrow> events \<noteq> [] \<Longrightarrow>
   renderTimeline P events pg = handlePermalinkOnLoad P (render_sections P events pg)"
  by (auto simp: renderTimeline_def split: option.splits)

lemma renderTimeline_empty:
  "timeline pg \<noteq> None \<Longrightarrow> sections_of (renderTimeline P [] pg) = []"
  by (auto simp: renderTimeline_def sections_of_def split: option.splits)

lemma renderTimeline_episodes:
  assumes "timeline pg \<noteq> None"
  shows "map data_episode (sections_of (renderTimeline P events pg)) = map fst (episode_groups P events)"
proof (cases "events = []")
  case True
  then show ?thesis using renderTimeline_empty [OF assms] by (simp add: episode_groups_Nil)
next
  case False
  show ?thesis
    unfolding renderTimeline_nonempty [OF assms False] handlePermalink_episodes
      render_sections_timeline
    by (simp add: data_episode_build_section comp_def)
qed


lemma episode_sorted_events:
  "consistent_compare P \<Longrightarrow>
   sorted_wrt (\<lambda>a b. episode_of a \<le> episode_of b) (Array_sort (compare_events P) events)"
  using sorted_events [of P events]
  by (rule sorted_wrt_mono_rel [rotated]) (auto intro: compare_le_episode)


lemma demo_groups:
  "episode_groups reference_platform demo_events = [(0, [ev_d]), (1, [ev_b]), (2, [ev_c, ev_a])]"
  by code_simp

lemma blank_timeline: "timeline blank_page \<noteq> None"
  by (simp add: blank_page_def)















section \<open>The default for a run never seen before\<close>

lemma strict_sorted_last_Max:
  assumes "sorted_wrt (<) (ks :: int list)" "ks \<noteq> []"
  shows "last ks = Max (set ks)"
proof -
  have "Max (set ks) \<in> set ks" using assms(2) by simp
  moreover have "\<forall>j\<in>set ks. j \<le> Max (set ks)" by simp
  ultimately show ?thesis using strict_sorted_last_max [OF assms(1)] by blast
qed

lemma keys_episode_groups: "set (map fst (episode_groups P events)) = episode_of ` set events"
  by (simp add: episode_groups_def keys_group set_Array_sort del: set_map)

lemma last_episode_is_max:
  assumes "consistent_compare P" "events \<noteq> []"
  shows "map fst (episode_groups P events) \<noteq> [] \<and>
         last (map fst (episode_groups P events)) = Max (episode_of ` set events)"
proof -
  have s: "sorted_wrt (<) (map fst (episode_groups P events))"
    using group_sorted [OF episode_sorted_events [OF assms(1)], of events]
    by (simp add: episode_groups_def)
  have "set (map fst (episode_groups P events)) \<noteq> {}"
    unfolding keys_episode_groups using assms(2) by simp
  then have ne: "map fst (episode_groups P events) \<noteq> []" by (simp del: set_map)
  show ?thesis
    using strict_sorted_last_Max [OF s ne] ne keys_episode_groups [of P events] by simp
qed

lemma load_absent:
  "getItem st (COLLAPSED_KEY_PREFIX @ runId) = None \<Longrightarrow> loadCollapsedMap P runId st = []"
  by (simp add: loadCollapsedMap_def loadCollapsedMap_body_def)

lemma resolve_absent:
  assumes "getItem st (COLLAPSED_KEY_PREFIX @ runKey) = None" "eps \<noteq> []"
  shows "resolve_collapsed P runKey eps st =
           ([Num (last eps)], saveCollapsedMap P runKey [Num (last eps)] st)"
  using assms by (simp add: resolve_collapsed_def Let_def load_absent Set_add_def)

lemma resolve_present:
  "getItem st (COLLAPSED_KEY_PREFIX @ runKey) \<noteq> None \<Longrightarrow>
   resolve_collapsed P runKey eps st = (loadCollapsedMap P runKey st, st)"
  by (simp add: resolve_collapsed_def Let_def)

lemma saved_raw:
  "\<not> quota_exceeded st \<Longrightarrow>
   getItem (saveCollapsedMap P runId s st) (COLLAPSED_KEY_PREFIX @ runId)
     = Some (JSON_stringify P (JArr (map json_of_number s)))"
  by (simp add: saveCollapsedMap_def saveCollapsedMap_body_def setItem_def getItem_def)

lemma contents_collapsed_build_section:
  "contents_collapsed (build_section persisted g) = (Num (fst g) \<in> set persisted)"
  by (simp add: build_section_def Let_def Set_has_def)

lemma demo_max: "Max (episode_of ` set demo_events) = 2"
  by (simp add: demo_events_def ev_a_def ev_b_def ev_c_def ev_d_def blank_event_def episode_of_def)

lemma demo_nonempty: "demo_events \<noteq> []"
  by (simp add: demo_events_def)

lemma blank_key: "COLLAPSED_KEY_PREFIX @ run_key blank_page = COLLAPSED_KEY_PREFIX @ ''run-02''"
  by (simp add: run_key_def blank_page_def js_or_def truthy_def or_empty_def DEFAULT_RUN_ID_def)

text \<open>
  C2. When a list of events that is not empty is rendered and the store has no entry at
  all under the run's key, the set used for the sections is exactly the highest episode
  number of the list, and it is saved at once, before the permalink is looked at: only
  the section of that episode is collapsed, and a store that takes the write then holds
  the list with that one number. When the key holds any value, the empty list included,
  nothing is written and the sections follow the stored set.
\<close>

theorem default_collapse_seeding:
  assumes "consistent_compare P" and "timeline pg \<noteq> None" and "events \<noteq> []"
  shows "renderTimeline P events pg = handlePermalinkOnLoad P (render_sections P events pg) \<and>
         (getItem (local_storage pg) (COLLAPSED_KEY_PREFIX @ run_key pg) = None \<longrightarrow>
            local_storage (render_sections P events pg) =
              saveCollapsedMap P (run_key pg) [Num (Max (episode_of ` set events))] (local_storage pg) \<and>
            (\<forall>sec\<in>set (sections_of (render_sections P events pg)).
               contents_collapsed sec \<longleftrightarrow> data_episode sec = Max (episode_of ` set events)) \<and>
            (\<not> quota_exceeded (local_storage pg) \<longrightarrow>
               getItem (local_storage (render_sections P events pg)) (COLLAPSED_KEY_PREFIX @ run_key pg)
                 = Some (JSON_stringify P (JArr [JNum (Max (episode_of ` set events))]))) \<and>
            (\<not> quota_exceeded (local_storage pg) \<and> json_roundtrip P \<longrightarrow>
               loadCollapsedMap P (run_key pg) (local_storage (render_sections P events pg))
                 = [Num (Max (episode_of ` set events))])) \<and>
         (getItem (local_storage pg) (COLLAPSED_KEY_PREFIX @ run_key pg) \<noteq> None \<longrightarrow>
            local_storage (render_sections P events pg) = local_storage pg \<and>
            (\<forall>sec\<in>set (sections_of (render_sections P events pg)).
               contents_collapsed sec \<longleftrightarrow>
                 Num (data_episode sec) \<in> set (loadCollapsedMap P (run_key pg) (local_storage pg))))"
proof -
  let ?eps = "map fst (episode_groups P events)"
  let ?m = "Max (episode_of ` set events)"
  let ?st = "local_storage pg"
  let ?key = "COLLAPSED_KEY_PREFIX @ run_key pg"
  have l: "?eps \<noteq> []" "last ?eps = ?m"
    using last_episode_is_max [OF assms(1,3)] by auto
  have r: "renderTimeline P events pg = handlePermalinkOnLoad P (render_sections P events pg)"
    by (rule renderTimeline_nonempty [OF assms(2,3)])
  have absent: "local_storage (render_sections P events pg) = saveCollapsedMap P (run_key pg) [Num ?m] ?st \<and>
            (\<forall>sec\<in>set (sections_of (render_sections P events pg)).
               contents_collapsed sec \<longleftrightarrow> data_episode sec = ?m) \<and>
            (\<not> quota_exceeded ?st \<longrightarrow>
               getItem (local_storage (render_sections P events pg)) ?key
                 = Some (JSON_stringify P (JArr [JNum ?m]))) \<and>
            (\<not> quota_exceeded ?st \<and> json_roundtrip P \<longrightarrow>
               loadCollapsedMap P (run_key pg) (local_storage (render_sections P events pg)) = [Num ?m])"
    if a: "getItem ?st ?key = None"
  proof -
    have res: "resolve_collapsed P (run_key pg) ?eps ?st = ([Num ?m], saveCollapsedMap P (run_key pg) [Num ?m] ?st)"
      using resolve_absent [OF a l(1), of P] l(2) by simp
    have s: "local_storage (render_sections P events pg) = saveCollapsedMap P (run_key pg) [Num ?m] ?st"
      by (simp add: render_sections_storage res)
    have c: "\<forall>sec\<in>set (sections_of (render_sections P events pg)).
               contents_collapsed sec \<longleftrightarrow> data_episode sec = ?m"
      unfolding render_sections_timeline res
      by (auto simp: contents_collapsed_build_section data_episode_build_section)
    have g: "\<not> quota_exceeded ?st \<longrightarrow>
               getItem (local_storage (render_sections P events pg)) ?key
                 = Some (JSON_stringify P (JArr [JNum ?m]))"
      unfolding s using saved_raw [of ?st P "run_key pg" "[Num ?m]"] by simp
    have ld: "\<not> quota_exceeded ?st \<and> json_roundtrip P \<longrightarrow>
               loadCollapsedMap P (run_key pg) (local_storage (render_sections P events pg)) = [Num ?m]"
      unfolding s using load_save_id [of P ?st "[Num ?m]" "run_key pg"] by simp
    show ?thesis using s c g ld by blast
  qed
  have present: "local_storage (render_sections P events pg) = ?st \<and>
            (\<forall>sec\<in>set (sections_of (render_sections P events pg)).
               contents_collapsed sec \<longleftrightarrow>
                 Num (data_episode sec) \<in> set (loadCollapsedMap P (run_key pg) ?st))"
    if p: "getItem ?st ?key \<noteq> None"
  proof -
    have res: "resolve_collapsed P (run_key pg) ?eps ?st = (loadCollapsedMap P (run_key pg) ?st, ?st)"
      by (rule resolve_present [OF p])
    show ?thesis
      unfolding render_sections_timeline render_sections_storage res
      by (auto simp: contents_collapsed_build_section data_episode_build_section)
  qed
  show ?thesis using r absent present by blast
qed


theorem default_collapse_seeding_witness:
  "consistent_compare reference_platform \<and> timeline blank_page \<noteq> None \<and> demo_events \<noteq> [] \<and>
   getItem (local_storage blank_page) (COLLAPSED_KEY_PREFIX @ run_key blank_page) = None \<and>
   \<not> quota_exceeded (local_storage blank_page) \<and>
   getItem (local_storage (render_sections reference_platform demo_events blank_page))
     (COLLAPSED_KEY_PREFIX @ ''run-02'') = Some ''[2]'' \<and>
   timeline seen_page \<noteq> None \<and>
   getItem (local_storage seen_page) (COLLAPSED_KEY_PREFIX @ run_key seen_page) = Some ''[]'' \<and>
   local_storage (render_sections reference_platform demo_events seen_page) = local_storage seen_page"
proof -
  have a: "getItem (local_storage blank_page) (COLLAPSED_KEY_PREFIX @ run_key blank_page) = None"
    by (simp add: getItem_def blank_page_def empty_storage_def)
  have q: "\<not> quota_exceeded (local_storage blank_page)"
    by (simp add: blank_page_def empty_storage_def)
  have t: "timeline seen_page \<noteq> None" by (simp add: seen_page_def blank_page_def)
  have k: "run_key seen_page = ''run-02''"
    by (simp add: seen_page_def run_key_def blank_page_def js_or_def truthy_def or_empty_def DEFAULT_RUN_ID_def)
  have p: "getItem (local_storage seen_page) (COLLAPSED_KEY_PREFIX @ run_key seen_page) = Some ''[]''"
    unfolding k by (simp add: seen_page_def getItem_def stored_def)
  have s: "JSON_stringify reference_platform (JArr [JNum 2]) = ''[2]''"
    by (simp add: reference_platform_def String_of_int_def digits_of.simps digit_char_def)
  note b = default_collapse_seeding [OF reference_consistent_compare blank_timeline demo_nonempty]
  note c = default_collapse_seeding [OF reference_consistent_compare t demo_nonempty]
  have b': "getItem (local_storage (render_sections reference_platform demo_events blank_page))
     (COLLAPSED_KEY_PREFIX @ ''run-02'') = Some ''[2]''"
    using b a q unfolding demo_max s blank_key by blast
  have c': "local_storage (render_sections reference_platform demo_events seen_page) = local_storage seen_page"
    using c p by simp
  show ?thesis
    using reference_consistent_compare blank_timeline demo_nonempty a q b' t p c' by simp
qed


section \<open>Toggling twice\<close>

text \<open>
  A page agrees with the store of its run when its sections have distinct episode
  numbers, the stored set holds numbers only, and a section is expanded exactly when its
  episode is not in the stored set.
\<close>

definition coherent :: "platform \<Rightarrow> page \<Rightarrow> bool" where
  "coherent P pg \<longleftrightarrow>
     distinct (map data_episode (sections_of pg)) \<and>
     NaN \<notin> set (loadCollapsedMap P (run_key pg) (local_storage pg)) \<and>
     (\<forall>sec\<in>set (sections_of pg).
        banner_expanded sec \<longleftrightarrow>
          Num (data_episode sec) \<notin> set (loadCollapsedMap P (run_key pg) (local_storage pg)))"

lemma update_first_distinct:
  "distinct (map g xs) \<Longrightarrow>
   update_first (\<lambda>s. g s = n) f xs = map (\<lambda>s. if g s = n then f s else s) xs"
proof (induction xs)
  case Nil
  then show ?case by simp
next
  case (Cons x xs)
  show ?case
  proof (cases "g x = n")
    case True
    then have "n \<notin> g ` set xs" using Cons.prems by simp
    then have "\<forall>s\<in>set xs. g s \<noteq> n" by blast
    then have "map (\<lambda>s. if g s = n then f s else s) xs = xs" by (simp add: map_idI)
    then show ?thesis using True by simp
  next
    case False
    then show ?thesis using Cons by simp
  qed
qed

lemma run_key_toggle: "run_key (toggleEpisodeSection P runId ep expand pg) = run_key pg"
  by (simp add: toggleEpisodeSection_def run_key_def Let_def split: number.splits option.splits)

lemma toggle_full:
  "quota_exceeded (local_storage pg) \<Longrightarrow>
   local_storage (toggleEpisodeSection P runId ep expand pg) = local_storage pg"
  by (simp add: toggleEpisodeSection_def Let_def saveCollapsedMap_full split: number.splits option.splits)

lemma find_Some_member:
  "n \<in> g ` set xs \<Longrightarrow> \<exists>x. find (\<lambda>s. g s = n) xs = Some x"
  by (induction xs) auto

lemma toggle_coherent:
  assumes rt: "json_roundtrip P" and q: "\<not> quota_exceeded (local_storage pg)"
    and co: "coherent P pg"
  shows "coherent P (toggleEpisodeSection P (run_key pg) ep expand pg)"
proof (cases ep)
  case NaN
  then show ?thesis using co by (simp add: toggleEpisodeSection_def)
next
  case (Num n)
  show ?thesis
  proof (cases "find (\<lambda>sec. data_episode sec = n) (sections_of pg)")
    case None
    then show ?thesis using co Num by (simp add: toggle_missing)
  next
    case (Some sec)
    let ?pg' = "toggleEpisodeSection P (run_key pg) (Num n) expand pg"
    let ?L = "loadCollapsedMap P (run_key pg) (local_storage pg)"
    let ?w = "will_expand expand sec"
    have d: "distinct (map data_episode (sections_of pg))"
      and nn: "NaN \<notin> set ?L"
      and sync: "\<forall>s\<in>set (sections_of pg). banner_expanded s \<longleftrightarrow> Num (data_episode s) \<notin> set ?L"
      using co by (auto simp: coherent_def)
    have L': "loadCollapsedMap P (run_key pg) (local_storage ?pg')
        = (if ?w then Set_delete (Num n) ?L else Set_add (Num n) ?L)"
      by (rule toggle_load [OF rt q nn Some])
    have secs: "sections_of ?pg' =
        map (\<lambda>s. if data_episode s = n then set_expanded ?w s else s) (sections_of pg)"
      unfolding toggle_found [OF Some]
      by (simp add: sections_of_def update_first_distinct [OF d [unfolded sections_of_def]])
    have d': "distinct (map data_episode (sections_of ?pg'))"
      using d by (simp add: toggle_episodes)
    have nn': "NaN \<notin> set (loadCollapsedMap P (run_key pg) (local_storage ?pg'))"
      unfolding L' using nn by (simp add: Set_add_set Set_delete_set)
    have sync': "\<forall>s\<in>set (sections_of ?pg').
        banner_expanded s \<longleftrightarrow> Num (data_episode s) \<notin> set (loadCollapsedMap P (run_key pg) (local_storage ?pg'))"
      unfolding L' secs using sync
      by (auto simp: Set_add_set Set_delete_set set_expanded_def)
    show ?thesis
      unfolding Num coherent_def run_key_toggle using d' nn' sync' by simp
  qed
qed

lemma two_toggles:
  assumes rt: "json_roundtrip P" and q: "\<not> quota_exceeded (local_storage pg)"
    and co: "coherent P pg"
    and ep: "n \<in> data_episode ` set (sections_of pg)"
  shows "set (loadCollapsedMap P (run_key pg) (local_storage
            (toggleEpisodeSection P (run_key pg) (Num n) None
               (toggleEpisodeSection P (run_key pg) (Num n) None pg))))
       = set (loadCollapsedMap P (run_key pg) (local_storage pg))"
proof -
  let ?rk = "run_key pg"
  let ?pg1 = "toggleEpisodeSection P ?rk (Num n) None pg"
  let ?L = "loadCollapsedMap P ?rk (local_storage pg)"
  obtain sec where f: "find (\<lambda>s. data_episode s = n) (sections_of pg) = Some sec"
    using find_Some_member [OF ep] by blast
  have mem: "sec \<in> set (sections_of pg)" "data_episode sec = n"
    using f by (auto simp: find_Some_iff in_set_conv_nth)
  have nn: "NaN \<notin> set ?L" using co by (simp add: coherent_def)
  have sync: "banner_expanded sec \<longleftrightarrow> Num n \<notin> set ?L"
    using co mem by (auto simp: coherent_def)
  have L1: "loadCollapsedMap P ?rk (local_storage ?pg1)
      = (if will_expand None sec then Set_delete (Num n) ?L else Set_add (Num n) ?L)"
    by (rule toggle_load [OF rt q nn f])
  have f1: "find (\<lambda>s. data_episode s = n) (sections_of ?pg1) = Some (set_expanded (will_expand None sec) sec)"
    by (rule toggle_section [OF f])
  have q1: "\<not> quota_exceeded (local_storage ?pg1)" using q by (simp add: toggle_quota)
  have nn1: "NaN \<notin> set (loadCollapsedMap P ?rk (local_storage ?pg1))"
    unfolding L1 using nn by (simp add: Set_add_set Set_delete_set)
  have L2: "loadCollapsedMap P ?rk (local_storage (toggleEpisodeSection P ?rk (Num n) None ?pg1))
      = (if will_expand None (set_expanded (will_expand None sec) sec)
         then Set_delete (Num n) (loadCollapsedMap P ?rk (local_storage ?pg1))
         else Set_add (Num n) (loadCollapsedMap P ?rk (local_storage ?pg1)))"
    by (rule toggle_load [OF rt q1 nn1 f1])
  show ?thesis
    unfolding L2 L1 using sync
    by (auto simp: will_expand_def set_expanded_def Set_add_set Set_delete_set)
qed


lemma run_key_render_sections: "run_key (render_sections P events pg) = run_key pg"
  by (simp add: render_sections_def run_key_def Let_def split: prod.splits)

lemma resolve_quota:
  "quota_exceeded (snd (resolve_collapsed P runKey eps st)) = quota_exceeded st"
  by (simp add: resolve_collapsed_def Let_def quota_saveCollapsedMap)

lemma resolve_load:
  assumes rt: "json_roundtrip P" and q: "\<not> quota_exceeded st"
    and nn: "NaN \<notin> set (loadCollapsedMap P runKey st)"
  shows "loadCollapsedMap P runKey (snd (resolve_collapsed P runKey eps st))
           = fst (resolve_collapsed P runKey eps st) \<and>
         NaN \<notin> set (fst (resolve_collapsed P runKey eps st))"
proof (cases "getItem st (COLLAPSED_KEY_PREFIX @ runKey) = None \<and> eps \<noteq> []")
  case True
  have "loadCollapsedMap P runKey (saveCollapsedMap P runKey [Num (last eps)] st) = [Num (last eps)]"
    by (rule load_save_id [OF rt q]) simp_all
  then show ?thesis using True by (simp add: resolve_absent)
next
  case False
  then have "resolve_collapsed P runKey eps st = (loadCollapsedMap P runKey st, st)"
    by (auto simp: resolve_collapsed_def Let_def)
  then show ?thesis using nn by simp
qed

lemma render_sections_coherent:
  assumes rt: "json_roundtrip P" and q: "\<not> quota_exceeded (local_storage pg)"
    and nn: "NaN \<notin> set (loadCollapsedMap P (run_key pg) (local_storage pg))"
  shows "coherent P (render_sections P events pg)"
proof -
  let ?r = "resolve_collapsed P (run_key pg) (map fst (episode_groups P events)) (local_storage pg)"
  have l: "loadCollapsedMap P (run_key pg) (snd ?r) = fst ?r" "NaN \<notin> set (fst ?r)"
    using resolve_load [OF rt q nn] by auto
  have d: "distinct (map data_episode (sections_of (render_sections P events pg)))"
    unfolding render_sections_timeline
    using distinct_keys_group [of "Array_sort (compare_events P) events"]
    by (simp add: data_episode_build_section comp_def episode_groups_def)
  have s: "\<forall>sec\<in>set (sections_of (render_sections P events pg)).
      banner_expanded sec \<longleftrightarrow> Num (data_episode sec) \<notin> set (fst ?r)"
    unfolding render_sections_timeline
    by (auto simp: banner_expanded_build_section data_episode_build_section)
  show ?thesis
    unfolding coherent_def run_key_render_sections render_sections_storage l(1)
    using d l(2) s by simp
qed

lemma handlePermalink_coherent:
  assumes rt: "json_roundtrip P" and q: "\<not> quota_exceeded (local_storage pg)"
    and co: "coherent P pg"
  shows "coherent P (handlePermalinkOnLoad P pg)"
  using handlePermalink_cases [of P pg] co toggle_coherent [OF rt q co] by auto

lemma handlePermalink_quota:
  "quota_exceeded (local_storage (handlePermalinkOnLoad P pg)) = quota_exceeded (local_storage pg)"
  using handlePermalink_cases [of P pg] by (auto simp: toggle_quota)

lemma run_key_handlePermalink: "run_key (handlePermalinkOnLoad P pg) = run_key pg"
  using handlePermalink_cases [of P pg] by (auto simp: run_key_toggle)

lemma renderTimeline_quota:
  "quota_exceeded (local_storage (renderTimeline P events pg)) = quota_exceeded (local_storage pg)"
  by (simp add: renderTimeline_def handlePermalink_quota render_sections_storage resolve_quota
      split: option.splits)

lemma run_key_renderTimeline: "run_key (renderTimeline P events pg) = run_key pg"
  by (simp add: renderTimeline_def run_key_handlePermalink run_key_render_sections
      split: option.splits, simp add: run_key_def)

lemma demo_sections: "data_episode ` set (sections_of (renderTimeline reference_platform demo_events blank_page)) = {0, 1, 2}"
proof -
  have "map data_episode (sections_of (renderTimeline reference_platform demo_events blank_page)) = [0, 1, 2]"
    using renderTimeline_episodes [OF blank_timeline, of reference_platform demo_events]
    by (simp add: demo_groups)
  then have "set (map data_episode (sections_of (renderTimeline reference_platform demo_events blank_page))) = set [0, 1, 2]"
    by simp
  then show ?thesis by (simp del: set_map add: set_map [symmetric])
qed

text \<open>
  C3. After \<^verbatim>\<open>renderTimeline\<close>, for the run the page was rendered for and every episode
  that has a section, two calls of \<^verbatim>\<open>toggleEpisodeSection\<close> on that episode without a
  forced direction leave the stored set with the members it had: the episode is in the
  set afterwards exactly when it was before. The browser reads back the lists it writes,
  and the store held numbers only before the page was rendered.
\<close>

theorem toggle_twice_restores:
  assumes "json_roundtrip P"
    and "NaN \<notin> set (loadCollapsedMap P (run_key pg) (local_storage pg))"
    and "ep \<in> data_episode ` set (sections_of (renderTimeline P events pg))"
  shows "set (loadCollapsedMap P (run_key pg) (local_storage
            (toggleEpisodeSection P (run_key pg) (Num ep) None
               (toggleEpisodeSection P (run_key pg) (Num ep) None (renderTimeline P events pg)))))
       = set (loadCollapsedMap P (run_key pg) (local_storage (renderTimeline P events pg)))"
proof (cases "quota_exceeded (local_storage pg)")
  case True
  then have "quota_exceeded (local_storage (renderTimeline P events pg))"
    by (simp add: renderTimeline_quota)
  then show ?thesis by (simp add: toggle_full)
next
  case False
  let ?pg' = "renderTimeline P events pg"
  have tl: "timeline pg \<noteq> None"
  proof
    assume "timeline pg = None"
    then have "sections_of ?pg' = []" by (simp add: renderTimeline_def sections_of_def)
    then show False using assms(3) by simp
  qed
  have ne: "events \<noteq> []"
  proof
    assume "events = []"
    then have "sections_of ?pg' = []" using renderTimeline_empty [OF tl] by simp
    then show False using assms(3) by simp
  qed
  have r: "?pg' = handlePermalinkOnLoad P (render_sections P events pg)"
    by (rule renderTimeline_nonempty [OF tl ne])
  have q1: "\<not> quota_exceeded (local_storage (render_sections P events pg))"
    using False by (simp add: render_sections_storage resolve_quota)
  have co: "coherent P ?pg'"
    unfolding r
    by (rule handlePermalink_coherent [OF assms(1) q1 render_sections_coherent [OF assms(1) False assms(2)]])
  have q': "\<not> quota_exceeded (local_storage ?pg')" using False by (simp add: renderTimeline_quota)
  show ?thesis
    using two_toggles [OF assms(1) q' co, unfolded run_key_renderTimeline, OF assms(3)] .
qed


theorem toggle_twice_restores_witness:
  "json_roundtrip reference_platform \<and>
   NaN \<notin> set (loadCollapsedMap reference_platform (run_key blank_page) (local_storage blank_page)) \<and>
   2 \<in> data_episode ` set (sections_of (renderTimeline reference_platform demo_events blank_page)) \<and>
   set (loadCollapsedMap reference_platform (run_key blank_page) (local_storage
          (toggleEpisodeSection reference_platform (run_key blank_page) (Num 2) None
             (toggleEpisodeSection reference_platform (run_key blank_page) (Num 2) None
                (renderTimeline reference_platform demo_events blank_page)))))
     = set (loadCollapsedMap reference_platform (run_key blank_page)
              (local_storage (renderTimeline reference_platform demo_events blank_page)))"
proof -
  have n: "NaN \<notin> set (loadCollapsedMap reference_platform (run_key blank_page) (local_storage blank_page))"
    by (simp add: loadCollapsedMap_def loadCollapsedMap_body_def getItem_def blank_page_def empty_storage_def)
  have e: "2 \<in> data_episode ` set (sections_of (renderTimeline reference_platform demo_events blank_page))"
    unfolding demo_sections by simp
  show ?thesis
    using toggle_twice_restores [OF reference_json_roundtrip n e] reference_json_roundtrip n e
    by simp
qed


end
